theory Spec2Isabelle
  imports Complex_Main
begin

section \<open>Numbers\<close>

text \<open>
  The animation code computes with JavaScript numbers. Integer-valued quantities (the
  generator state, viewport sizes, frame handles, element counts) are modelled as \<open>int\<close> or
  \<open>nat\<close>: once the generator state is below the modulus every product it forms stays below
  \<open>2 ^ 46\<close>, so the doubles of the source hold these integers exactly. Fractional
  quantities (generator outputs, timestamps, progress values, prices) are modelled as
  \<open>real\<close>; rounding of doubles is not part of the model.

  The remainder operator \<open>%\<close> of the source truncates: the result has the sign of the
  dividend.
\<close>

definition js_rem :: "int \<Rightarrow> int \<Rightarrow> int" where
  "js_rem a b = sgn a * (\<bar>a\<bar> mod \<bar>b\<bar>)"

section \<open>Deterministic generator\<close>

text \<open>
  \<^verbatim>\<open>
  function seededRng(seed) {
      let s = seed;
      return function () { s = (s * 16807) % 2147483647; return (s - 1) / 2147483646; };
  }
  \<close>
  The closure owns one variable \<open>s\<close>. A generator is modelled by the value of that
  variable; calling it returns the output together with the updated variable.
\<close>

definition seededRng :: "int \<Rightarrow> int" where
  "seededRng seed = seed"

definition rng_call :: "int \<Rightarrow> real \<times> int" where
  "rng_call s = (let s' = js_rem (s * 16807) 2147483647 in (real_of_int (s' - 1) / 2147483646, s'))"

text \<open>Calling one generator \<open>n\<close> times in a row: the outputs in order, and the final state.\<close>

fun rng_calls :: "nat \<Rightarrow> int \<Rightarrow> real list \<times> int" where
  "rng_calls 0 s = ([], s)"
| "rng_calls (Suc n) s =
     (let (x, s1) = rng_call s; (xs, s2) = rng_calls n s1 in (x # xs, s2))"

text \<open>
  Two generators held side by side, each with its own closure variable. A schedule says
  which of the two is called next (\<open>True\<close>: the first); the result is the output sequence
  of each.
\<close>

fun run_two :: "bool list \<Rightarrow> int \<times> int \<Rightarrow> real list \<times> real list" where
  "run_two [] (a, b) = ([], [])"
| "run_two (True # cs) (a, b) =
     (let (x, a') = rng_call a; (xs, ys) = run_two cs (a', b) in (x # xs, ys))"
| "run_two (False # cs) (a, b) =
     (let (y, b') = rng_call b; (xs, ys) = run_two cs (a, b') in (xs, y # ys))"

section \<open>Utilities\<close>

definition DURATION :: real where
  "DURATION = 32000"

definition lerp :: "real \<Rightarrow> real \<Rightarrow> real \<Rightarrow> real" where
  "lerp a b t = a + (b - a) * t"

definition clamp :: "real \<Rightarrow> real \<Rightarrow> real \<Rightarrow> real" where
  "clamp v lo hi = max lo (min hi v)"

definition easeInOut :: "real \<Rightarrow> real" where
  "easeInOut t = (if t < 0.5 then 2 * t * t else 1 - (- 2 * t + 2) ^ 2 / 2)"

definition easeIn :: "real \<Rightarrow> real" where
  "easeIn t = t * t * t"

definition easeOut :: "real \<Rightarrow> real" where
  "easeOut t = 1 - (1 - t) ^ 3"

definition smoothstep :: "real \<Rightarrow> real \<Rightarrow> real \<Rightarrow> real" where
  "smoothstep e0 e1 x = (let t = clamp ((x - e0) / (e1 - e0)) 0 1 in t * t * (3 - 2 * t))"

definition getZoom :: "real \<Rightarrow> real" where
  "getZoom elapsed =
     (let t = elapsed / DURATION
      in if t < 0.28 then 1 + easeIn (t / 0.28) * 14
         else if t < 0.45 then 15 + easeInOut ((t - 0.28) / 0.17) * 985
         else 1000)"

section \<open>Particle pools of the observatory sequence\<close>

text \<open>
  \<open>initParticles\<close> creates one generator with seed 42 and fills eight pools from it, in a
  fixed order. Each element is an object literal; its properties are evaluated in the order
  written, so the draws from the generator are threaded in that order.
\<close>

record bgStar =
  bg_x :: real
  bg_y :: real
  bg_size :: real
  bg_brightness :: real
  bg_twinkle :: real
  bg_speed :: real

record dustMote =
  du_x :: real
  du_y :: real
  du_size :: real
  du_vx :: real
  du_vy :: real
  du_opacity :: real
  du_phase :: real

record lensRing =
  lr_z :: real
  lr_radius :: real
  lr_hue :: real
  lr_thickness :: real
  lr_rotSpeed :: real

record star =
  st_angle :: real
  st_dist :: real
  st_size :: real
  st_hue :: real
  st_sat :: real
  st_br :: real
  st_twPhase :: real
  st_twSpeed :: real
  st_ySkew :: real

record node =
  nd_x :: real
  nd_y :: real
  nd_size :: real
  nd_pPhase :: real
  nd_pSpeed :: real

record edge =
  ed_from :: nat
  ed_to :: nat
  ed_str :: real

record candle =
  c_open :: real
  c_close :: real
  c_high :: real
  c_low :: real
  c_bull :: bool

record comet =
  co_phase :: real
  co_speed :: real
  co_radius :: real
  co_ecc :: real
  co_hue :: real
  co_tail :: real

record orderCol =
  oc_x :: real
  oc_height :: real
  oc_width :: real
  oc_hue :: real
  oc_speed :: real
  oc_phase :: real

record pools =
  bgStars :: "bgStar list"
  dust :: "dustMote list"
  lensRings :: "lensRing list"
  stars :: "star list"
  neural_nodes :: "node list"
  neural_edges :: "edge list"
  candles :: "candle list"
  comets :: "comet list"
  orderCols :: "orderCol list"

text \<open>
  The loop \<^verbatim>\<open>for (let i = 0; i < n; i++) pool.push(...)\<close>: the elements for the indices
  given, in order, with the state of the random source threaded through.
\<close>

fun push_each :: "(nat \<Rightarrow> 's \<Rightarrow> 'a \<times> 's) \<Rightarrow> nat list \<Rightarrow> 's \<Rightarrow> 'a list \<times> 's" where
  "push_each mk [] s = ([], s)"
| "push_each mk (i # idxs) s =
     (let (x, s1) = mk i s; (xs, s2) = push_each mk idxs s1 in (x # xs, s2))"

definition mk_bgStar :: "nat \<Rightarrow> int \<Rightarrow> bgStar \<times> int" where
  "mk_bgStar i s0 =
     (let (r1, s1) = rng_call s0; (r2, s2) = rng_call s1; (r3, s3) = rng_call s2;
          (r4, s4) = rng_call s3; (r5, s5) = rng_call s4; (r6, s6) = rng_call s5
      in (\<lparr>bg_x = r1, bg_y = r2 * 0.4, bg_size = 0.3 + r3 * 1.8, bg_brightness = 0.4 + r4 * 0.6,
           bg_twinkle = r5 * pi * 2, bg_speed = 0.5 + r6 * 2\<rparr>, s6))"

definition mk_dust :: "nat \<Rightarrow> int \<Rightarrow> dustMote \<times> int" where
  "mk_dust i s0 =
     (let (r1, s1) = rng_call s0; (r2, s2) = rng_call s1; (r3, s3) = rng_call s2;
          (r4, s4) = rng_call s3; (r5, s5) = rng_call s4; (r6, s6) = rng_call s5;
          (r7, s7) = rng_call s6
      in (\<lparr>du_x = r1, du_y = r2, du_size = 0.5 + r3 * 2.5, du_vx = (r4 - 0.5) * 0.08,
           du_vy = - 0.02 - r5 * 0.06, du_opacity = 0.3 + r6 * 0.7, du_phase = r7 * pi * 2\<rparr>, s7))"

definition mk_lensRing :: "nat \<Rightarrow> int \<Rightarrow> lensRing \<times> int" where
  "mk_lensRing i s0 =
     (let (r1, s1) = rng_call s0; (r2, s2) = rng_call s1; (r3, s3) = rng_call s2
      in (\<lparr>lr_z = real i * 0.09 + 0.03, lr_radius = 0.13 + r1 * 0.06, lr_hue = 200 + real i * 16,
           lr_thickness = 1.5 + r2 * 2.5, lr_rotSpeed = (r3 - 0.5) * 0.0006\<rparr>, s3))"

definition mk_star :: "nat \<Rightarrow> int \<Rightarrow> star \<times> int" where
  "mk_star i s0 =
     (let (r1, s1) = rng_call s0;
          arm = real_of_int \<lfloor>r1 * 3\<rfloor>;
          armBase = arm * (pi * 2 / 3);
          (r2, s2) = rng_call s1;
          dist = 0.015 + r2 * 0.49;
          (r3, s3) = rng_call s2;
          spiral = armBase + dist * 4.5 + (r3 - 0.5) * 0.55;
          (r4, s4) = rng_call s3;
          sec = \<lfloor>r4 * 4\<rfloor>;
          (hue, sat) = (if sec = 0 then (215, 90) else if sec = 1 then (30, 92)
                        else if sec = 2 then (150, 75) else (275, 70));
          (r5, s5) = rng_call s4; (r6, s6) = rng_call s5; (r7, s7) = rng_call s6;
          (r8, s8) = rng_call s7; (r9, s9) = rng_call s8; (r10, s10) = rng_call s9
      in (\<lparr>st_angle = spiral, st_dist = dist, st_size = 0.4 + r5 * 3,
           st_hue = hue + (r6 - 0.5) * 22, st_sat = sat, st_br = 0.2 + r7 * 0.8,
           st_twPhase = r8 * pi * 2, st_twSpeed = 0.3 + r9 * 2.5, st_ySkew = 0.45 + r10 * 0.45\<rparr>,
          s10))"

definition mk_node :: "nat \<Rightarrow> int \<Rightarrow> node \<times> int" where
  "mk_node i s0 =
     (let (r1, s1) = rng_call s0; (r2, s2) = rng_call s1; (r3, s3) = rng_call s2;
          (r4, s4) = rng_call s3; (r5, s5) = rng_call s4
      in (\<lparr>nd_x = (r1 - 0.5) * 0.95, nd_y = (r2 - 0.5) * 0.95, nd_size = 2 + r3 * 7,
           nd_pPhase = r4 * pi * 2, nd_pSpeed = 0.3 + r5 * 1.8\<rparr>, s5))"

text \<open>
  The edge loops: for each pair \<open>i < j\<close> of nodes closer than 0.26, one draw decides
  whether the edge is kept (the \<^verbatim>\<open>&&\<close> does not draw when the distance test fails), and a
  kept edge draws its strength.
\<close>

fun edges_inner :: "node list \<Rightarrow> nat \<Rightarrow> nat list \<Rightarrow> edge list \<times> int \<Rightarrow> edge list \<times> int" where
  "edges_inner ns i [] acc = acc"
| "edges_inner ns i (j # js) (es, s) =
     (let dx = nd_x (ns ! i) - nd_x (ns ! j);
          dy = nd_y (ns ! i) - nd_y (ns ! j)
      in if sqrt (dx * dx + dy * dy) < 0.26
         then (let (r1, s1) = rng_call s
               in if r1 > 0.3
                  then (let (r2, s2) = rng_call s1
                        in edges_inner ns i js
                             (es @ [\<lparr>ed_from = i, ed_to = j, ed_str = 0.25 + r2 * 0.75\<rparr>], s2))
                  else edges_inner ns i js (es, s1))
         else edges_inner ns i js (es, s))"

fun edges_outer :: "node list \<Rightarrow> nat list \<Rightarrow> edge list \<times> int \<Rightarrow> edge list \<times> int" where
  "edges_outer ns [] acc = acc"
| "edges_outer ns (i # idxs) acc =
     edges_outer ns idxs (edges_inner ns i [i + 1 ..< length ns] acc)"

definition mk_candle :: "nat \<Rightarrow> int \<Rightarrow> candle \<times> int" where
  "mk_candle i s0 =
     (let (r1, s1) = rng_call s0;
          opn = 0.3 + r1 * 0.4;
          (r2, s2) = rng_call s1;
          cls = 0.3 + r2 * 0.4;
          (r3, s3) = rng_call s2; (r4, s4) = rng_call s3
      in (\<lparr>c_open = opn, c_close = cls, c_high = max opn cls + r3 * 0.08,
           c_low = min opn cls - r4 * 0.08, c_bull = (cls > opn)\<rparr>, s4))"

definition mk_comet :: "nat \<Rightarrow> int \<Rightarrow> comet \<times> int" where
  "mk_comet i s0 =
     (let (r1, s1) = rng_call s0; (r2, s2) = rng_call s1; (r3, s3) = rng_call s2;
          (r4, s4) = rng_call s3; (r5, s5) = rng_call s4; (r6, s6) = rng_call s5
      in (\<lparr>co_phase = r1 * pi * 2, co_speed = 0.0003 + r2 * 0.0009, co_radius = 0.15 + r3 * 0.35,
           co_ecc = 0.2 + r4 * 0.5, co_hue = 165 + r5 * 75, co_tail = 15 + r6 * 35\<rparr>, s6))"

definition mk_orderCol :: "nat \<Rightarrow> int \<Rightarrow> orderCol \<times> int" where
  "mk_orderCol i s0 =
     (let (r1, s1) = rng_call s0; (r2, s2) = rng_call s1; (r3, s3) = rng_call s2;
          (r4, s4) = rng_call s3; (r5, s5) = rng_call s4; (r6, s6) = rng_call s5
      in (\<lparr>oc_x = (r1 - 0.5) * 1.8, oc_height = 0.04 + r2 * 0.28, oc_width = 0.006 + r3 * 0.014,
           oc_hue = (if r4 > 0.5 then 135 else 355), oc_speed = 0.4 + r5 * 1.8,
           oc_phase = r6 * pi * 2\<rparr>, s6))"

text \<open>
  The pools built by one call of \<open>initParticles\<close>. The function reads no variable of the
  module: neither the viewport \<open>w\<close>, \<open>h\<close> nor the clock.
\<close>

definition build_pools :: pools where
  "build_pools =
     (let r = seededRng 42;
          (bg, s1) = push_each mk_bgStar [0 ..< 180] r;
          (du, s2) = push_each mk_dust [0 ..< 300] s1;
          (lr, s3) = push_each mk_lensRing [0 ..< 12] s2;
          (sr, s4) = push_each mk_star [0 ..< 800] s3;
          (ns, s5) = push_each mk_node [0 ..< 55] s4;
          (es, s6) = edges_outer ns [0 ..< length ns] ([], s5);
          (cs, s7) = push_each mk_candle [0 ..< 80] s6;
          (cm, s8) = push_each mk_comet [0 ..< 12] s7;
          (oc, s9) = push_each mk_orderCol [0 ..< 45] s8
      in \<lparr>bgStars = bg, dust = du, lensRings = lr, stars = sr, neural_nodes = ns,
          neural_edges = es, candles = cs, comets = cm, orderCols = oc\<rparr>)"

section \<open>Candlesticks as drawn by the cosmos renderer\<close>

text \<open>
  \<open>drawCosmos (t, elapsed)\<close> returns at once when its fade envelope is not positive.
  Otherwise, once \<open>candleP = smoothstep (0.03, 0.2, t)\<close> is positive, it draws every candle
  twice (\<open>side\<close> 0 and 1). The wick is drawn from \<open>high\<close> to \<open>low\<close> and the body between
  \<open>max (open, close)\<close> and \<open>min (open, close)\<close> of the four jittered prices below.
\<close>

record drawn_candle =
  d_open :: real
  d_close :: real
  d_high :: real
  d_low :: real

definition clampPrice :: "real \<Rightarrow> real" where
  "clampPrice v = max 0.1 (min 0.9 v)"

definition jitter :: "real \<Rightarrow> real \<Rightarrow> nat \<Rightarrow> nat \<Rightarrow> candle \<Rightarrow> drawn_candle" where
  "jitter elapsed candleP side i c =
     (let volatility = sin (elapsed * 0.003 + real i * 0.22 + real side * 0.5) * 0.08 * candleP;
          bias = cos (elapsed * 0.001 + real i * 0.12) * 0.02
      in \<lparr>d_open = clampPrice (c_open c + volatility + bias),
          d_close = clampPrice (c_close c + volatility * 0.9 - bias * 0.5),
          d_high = clampPrice (c_high c + volatility * 1.15 + bias),
          d_low = clampPrice (c_low c + volatility * 1.15 - bias)\<rparr>)"

definition cosmos_candles :: "candle list \<Rightarrow> real \<Rightarrow> real \<Rightarrow> drawn_candle list" where
  "cosmos_candles cs t elapsed =
     (let fadeIn = smoothstep 0 0.05 t;
          fadeOut = 1 - smoothstep 0.92 1 t;
          a = fadeIn * fadeOut
      in if a \<le> 0 then []
         else (let candleP = smoothstep 0.03 0.2 t
               in if candleP > 0
                  then concat (map (\<lambda>side. map (\<lambda>i. jitter elapsed candleP side i (cs ! i))
                                                  [0 ..< length cs]) [0 ..< 2])
                  else []))"

section \<open>Scene renderers\<close>

text \<open>
  \<open>render\<close> schedules four renderers. Each computes a fade envelope
  \<open>a = fadeIn * fadeOut\<close> from its local progress \<open>t\<close> and returns at once, before any
  call on the canvas, when \<^verbatim>\<open>a <= 0\<close>.
\<close>

datatype renderer = drawApproach | drawOptics | drawDataTransform | drawCosmos

fun fade :: "renderer \<Rightarrow> real \<Rightarrow> real" where
  "fade drawApproach t = smoothstep 0 0.1 t * (1 - smoothstep 0.85 1 t)"
| "fade drawOptics t = smoothstep 0 0.07 t * (1 - smoothstep 0.88 1 t)"
| "fade drawDataTransform t = smoothstep 0 0.2 t * (1 - smoothstep 0.92 1 t)"
| "fade drawCosmos t = smoothstep 0 0.05 t * (1 - smoothstep 0.92 1 t)"

text \<open>
  Past the gate a renderer paints through the 2D context of the host. Three methods of
  that context take a radius and raise an \<open>IndexSizeError\<close> exception when a radius is
  negative: \<open>arc (x, y, radius, ...)\<close>, \<open>ellipse (x, y, radiusX, radiusY, ...)\<close> and
  \<open>createRadialGradient (x0, y0, r0, x1, y1, r1)\<close>. The other calls the renderers make
  (rectangles, paths, text, linear gradients, colour stops at constant offsets) raise nothing
  on the numbers of this model. A renderer is therefore modelled by the calls of these three
  methods that it makes, in the order it makes them, each with the radii it passes; \<open>None\<close>
  stands for the return at the fade gate. No renderer catches an exception.
\<close>

datatype canvas_call = Arc real | Ellipse real real | RadialGradient real real

fun rejected :: "canvas_call \<Rightarrow> bool" where
  "rejected (Arc r) \<longleftrightarrow> r < 0"
| "rejected (Ellipse rx ry) \<longleftrightarrow> rx < 0 \<or> ry < 0"
| "rejected (RadialGradient r0 r1) \<longleftrightarrow> r0 < 0 \<or> r1 < 0"

text \<open>
  The remainder \<open>x % y\<close> on fractional numbers, for a divisor that is not 0: \<open>x\<close> minus \<open>y\<close>
  times the quotient rounded towards 0.
\<close>

definition js_fmod :: "real \<Rightarrow> real \<Rightarrow> real" where
  "js_fmod x y = x - y * real_of_int (if x / y < 0 then \<lceil>x / y\<rceil> else \<lfloor>x / y\<rfloor>)"

text \<open>
  \<open>drawApproach\<close>. \<^verbatim>\<open>const maxR = Math.hypot(w, h) * 0.62; const minR = Math.min(w, h) * 0.035;
  const radius = lerp(minR, maxR, easeInOut(t));\<close>
\<close>

definition approach_radius :: "nat \<Rightarrow> nat \<Rightarrow> real \<Rightarrow> real" where
  "approach_radius w h t =
     (let maxR = sqrt (real w * real w + real h * real h) * 0.62;
          minR = real (min w h) * 0.035
      in lerp minR maxR (easeInOut t))"

text \<open>
  In the order of the source: the barrel cut-out (\<open>arc\<close>, when \<open>radius < maxR * 0.99\<close>), the
  glass (\<open>arc\<close>, gradient from radius 0 to \<open>radius\<close>), the edge ring (\<open>arc\<close>, gradient from
  \<open>radius - 4\<close> to \<open>radius + 2\<close>), eight inner rings \<open>rr = radius * (0.2 + i * 0.1)\<close> (skipped
  when \<open>rr < 2\<close>), two reflections (\<open>ellipse\<close>, when \<open>t < 0.5\<close>), thirty grooves
  \<open>gr = radius * (0.82 + i * 0.006)\<close> (when \<open>0.3 < t < 0.8\<close>; skipped when \<open>gr >= radius\<close>),
  and the eyecup (two \<open>arc\<close>, when \<open>t > 0.7\<close>).
\<close>

definition drawApproach_calls :: "nat \<Rightarrow> nat \<Rightarrow> real \<Rightarrow> real \<Rightarrow> canvas_call list option" where
  "drawApproach_calls w h t elapsed =
     (if fade drawApproach t \<le> 0 then None
      else (let maxR = sqrt (real w * real w + real h * real h) * 0.62;
                radius = approach_radius w h t;
                cupW = radius * 0.065
            in Some ((if radius < maxR * 0.99 then [Arc radius] else [])
                 @ [Arc radius, RadialGradient 0 radius,
                    Arc radius, RadialGradient (radius - 4) (radius + 2)]
                 @ map Arc (filter (\<lambda>rr. \<not> rr < 2)
                              (map (\<lambda>i. radius * (0.2 + real i * 0.1)) [0 ..< 8]))
                 @ (if t < 0.5
                    then [Ellipse (radius * 0.4) (radius * 0.12),
                          Ellipse (radius * 0.15) (radius * 0.05)]
                    else [])
                 @ (if t > 0.3 \<and> t < 0.8
                    then map Arc (filter (\<lambda>gr. \<not> gr \<ge> radius)
                                   (map (\<lambda>i. radius * (0.82 + real i * 0.006)) [0 ..< 30]))
                    else [])
                 @ (if t > 0.7 then [Arc radius, Arc (radius - cupW)] else []))))"

text \<open>
  \<open>drawOptics\<close>: the barrel gradient; for each lens ring that is in range an \<open>arc\<close>, a
  gradient and six refraction arcs; two aberration arcs; five ghost images (gradient and
  \<open>arc\<close>); and, when \<open>t > 0.2\<close>, the baffles in range (two \<open>arc\<close> each) and six screws.
\<close>

definition drawOptics_calls ::
  "nat \<Rightarrow> nat \<Rightarrow> lensRing list \<Rightarrow> real \<Rightarrow> real \<Rightarrow> canvas_call list option" where
  "drawOptics_calls w h rings t elapsed =
     (if fade drawOptics t \<le> 0 then None
      else (let minDim = real (min w h);
                camZ = t * 10;
                barrelR = minDim * 0.48
            in Some ([RadialGradient (barrelR * 0.85) barrelR]
                 @ concat (map (\<lambda>ring.
                      let relZ = lr_z ring * 10 - camZ
                      in if relZ < 0.05 \<or> relZ > 4 then []
                         else (let persp = 1 / relZ;
                                   sr = lr_radius ring * minDim * persp
                               in if sr < 1 \<or> sr > minDim * 3 then []
                                  else [Arc sr, RadialGradient (sr * 0.5) sr]
                                       @ replicate 6 (Arc (sr * 0.4)))) rings)
                 @ [Arc (minDim * 0.46), Arc (minDim * 0.465)]
                 @ concat (map (\<lambda>g.
                      let gPhase = js_fmod (elapsed * 0.0005 + real g * 1.3) 3;
                          gr = minDim * (0.03 + gPhase * 0.05)
                      in [RadialGradient 0 gr, Arc gr]) [0 ..< 5])
                 @ (if t > 0.2
                    then concat (map (\<lambda>b.
                           let bz = 0.2 + real b * 0.13 - js_fmod camZ 0.8
                           in if bz < 0.06 \<or> bz > 1.5 then []
                              else (let bp = 1 / bz;
                                        br = minDim * 0.38 * bp
                                    in if br > minDim then []
                                       else [Arc br, Arc (br * 0.92)])) [0 ..< 6])
                         @ concat (replicate 6 [Arc 4, RadialGradient 0 5])
                    else []))))"

text \<open>
  \<open>drawDataTransform\<close>: the carried-over glow (gradient, when \<open>t < 0.3\<close>) and, once
  \<open>tunnelP = smoothstep (0.5, 1, t)\<close> is positive, the tunnel rings in range (an \<open>arc\<close> and
  eight dots each).
\<close>

definition drawDataTransform_calls ::
  "nat \<Rightarrow> nat \<Rightarrow> real \<Rightarrow> real \<Rightarrow> canvas_call list option" where
  "drawDataTransform_calls w h t elapsed =
     (if fade drawDataTransform t \<le> 0 then None
      else (let minDim = real (min w h);
                tunnelP = smoothstep 0.5 1 t
            in Some ((if t < 0.3 then [RadialGradient 0 (real (max w h) * 0.6)] else [])
                 @ (if tunnelP > 0
                    then concat (map (\<lambda>ring.
                           let rz = js_fmod (real ring * 0.16 + elapsed * 0.001) 3.5
                           in if rz < 0.06 then []
                              else (let persp = 1 / rz;
                                        rr = minDim * 0.44 * persp
                                    in if rr > minDim * 1.2 then []
                                       else Arc rr # replicate 8 (Arc (2 * persp)))) [0 ..< 20])
                    else []))))"



text \<open>
  \<open>drawCosmos\<close>, in four parts, with \<open>scale = minDim * 0.46\<close>. First the core
  (gradient, \<open>arc\<close>) and every star (\<open>arc\<close>, and a glow when \<open>br > 0.5\<close>).
\<close>

definition cosmos_galaxy_calls :: "real \<Rightarrow> star list \<Rightarrow> real \<Rightarrow> canvas_call list" where
  "cosmos_galaxy_calls minDim sts elapsed =
     (let scale = minDim * 0.46
      in [RadialGradient 0 (scale * 0.5), Arc (scale * 0.18)]
         @ concat (map (\<lambda>s.
              let tw = 0.45 + 0.55 * sin (elapsed * 0.002 * st_twSpeed s + st_twPhase s);
                  br = st_br s * tw
              in Arc (st_size s * (0.7 + br * 0.5))
                 # (if br > 0.5
                    then [RadialGradient 0 (st_size s * 6), Arc (st_size s * 6)]
                    else [])) sts))"

text \<open>
  Then four binary pairs (when \<open>pairP > 0\<close>) and the comets (when \<open>cometP > 0\<close>).
  Filaments, candlesticks and order-book columns, drawn before them, take no radius.
\<close>

definition cosmos_orbit_calls :: "real \<Rightarrow> comet list \<Rightarrow> real \<Rightarrow> canvas_call list" where
  "cosmos_orbit_calls minDim cms t =
     (let pairP = smoothstep 0.1 0.3 t;
          cometP = smoothstep 0.15 0.35 t;
          oR = minDim * 0.025
      in (if pairP > 0
          then concat (replicate 4 [Arc 3, Arc 3, RadialGradient 0 (oR * 4), Arc (oR * 4)])
          else [])
         @ (if cometP > 0 then map (\<lambda>cm. Arc 2.5) cms else []))"

text \<open>
  Then, when \<open>neuralP > 0\<close>, every node of the network, drawn with
  \<^verbatim>\<open>
  const pulse = 0.4 + 0.6 * Math.sin(elapsed * 0.003 * nd.pSpeed + nd.pPhase);
  ctx.arc(nx, ny, nd.size * pulse, 0, Math.PI * 2);
  \<close>
  followed by its glow (gradient, \<open>arc\<close>), and after the nodes the shockwave.
\<close>

definition cosmos_neural_calls :: "real \<Rightarrow> node list \<Rightarrow> real \<Rightarrow> real \<Rightarrow> canvas_call list" where
  "cosmos_neural_calls minDim nodes t elapsed =
     (let scale = minDim * 0.46;
          neuralP = smoothstep 0.08 0.35 t;
          shockT = js_fmod elapsed 3000 / 3000
      in if neuralP > 0
         then concat (map (\<lambda>nd.
                let pulse = 0.4 + 0.6 * sin (elapsed * 0.003 * nd_pSpeed nd + nd_pPhase nd)
                in [Arc (nd_size nd * pulse),
                    RadialGradient 0 (nd_size nd * 4), Arc (nd_size nd * 4)]) nodes)
              @ (if shockT < 0.3 then [Arc (shockT / 0.3 * scale * 0.8)] else [])
         else [])"

text \<open>
  Last: seven gas clouds (when \<open>0.12 < t < 0.7\<close>), the burst ripple, five sentiment
  indicators (when \<open>t > 0.2\<close>), four halos (when \<open>t > 0.3\<close>) and two planetary systems
  (when \<open>t > 0.25\<close>). The flashes, drawn after the gas clouds, take no radius.
\<close>

definition cosmos_ambient_calls :: "real \<Rightarrow> real \<Rightarrow> real \<Rightarrow> canvas_call list" where
  "cosmos_ambient_calls minDim t elapsed =
     (let scale = minDim * 0.46;
          burstT = js_fmod elapsed 5000 / 5000
      in (if t > 0.12 \<and> t < 0.7
          then concat (map (\<lambda>i.
                 let clr = minDim * (0.045 + 0.03 * sin (elapsed * 0.0003 + real i))
                 in [RadialGradient 0 clr, Arc clr]) [0 ..< 7])
          else [])
         @ (if burstT < 0.1 \<and> t > 0.15 then [Arc (burstT / 0.1 * scale * 0.6)] else [])
         @ (if t > 0.2
            then concat (replicate 5 [RadialGradient 0 (minDim * 0.065), Arc (minDim * 0.065)])
            else [])
         @ (if t > 0.3
            then concat (map (\<lambda>i.
                   let hr = minDim * 0.06 + sin (elapsed * 0.001 + real i) * minDim * 0.018
                   in [RadialGradient (hr * 0.2) hr, Arc hr]) [0 ..< 4])
            else [])
         @ (if t > 0.25
            then concat (map (\<lambda>(n, base).
                   Arc 4 # concat (map (\<lambda>q.
                     let pr = (base + real q * 0.022) * scale
                     in [Arc pr, Arc 2.5]) [0 ..< n])) [(3, 0.04), (2, 0.035)])
            else []))"

definition drawCosmos_calls ::
  "nat \<Rightarrow> nat \<Rightarrow> pools \<Rightarrow> real \<Rightarrow> real \<Rightarrow> canvas_call list option" where
  "drawCosmos_calls w h p t elapsed =
     (if fade drawCosmos t \<le> 0 then None
      else (let minDim = real (min w h)
            in Some (cosmos_galaxy_calls minDim (stars p) elapsed
                 @ cosmos_orbit_calls minDim (comets p) t
                 @ cosmos_neural_calls minDim (neural_nodes p) t elapsed
                 @ cosmos_ambient_calls minDim t elapsed)))"


section \<open>Sequence controller\<close>

text \<open>
  The module \<open>ObservatoryAnimation\<close> keeps its state in variables of one closure:
  \<^verbatim>\<open>let canvas, ctx, w, h; let startTime = null; let onComplete = null;
  let animFrameId = null; let skipped = false;\<close> and the pools. What the module does to
  the outside (painting on the canvas, asking the host for a frame, cancelling one, calling
  the completion function) is recorded as a trace of events, in the order of the calls.
  A call on \<open>ctx\<close> while it is still undefined raises a \<open>TypeError\<close>, and so does a loop
  over a pool that is still undefined; a negative radius handed to the canvas raises an
  \<open>IndexSizeError\<close>. Neither is caught anywhere in the module: the exception is recorded as
  an event, and it ends the call of the module in which it is raised.

  The scene renderers are recorded by their invocation \<open>fn (t, elapsed, zoom)\<close>.
\<close>

datatype event =
    ClearRect nat nat
  | FillRect string nat nat
  | Invoke renderer real real real
  | OnComplete
  | RequestFrame nat
  | CancelFrame nat
  | TypeError
  | IndexSizeError

record ctrl =
  canvas :: "(nat \<times> nat) option"
  view_w :: nat
  view_h :: nat
  startTime :: "real option"
  onComplete :: bool
  animFrameId :: "nat option"
  skipped :: bool
  particles :: "pools option"
  next_frame_id :: nat
  pending :: "nat list"
  trace :: "event list"

text \<open>
  \<open>canvas\<close> is the canvas element handed to \<open>start\<close>, with the width and height it has
  now (\<open>None\<close> before the first \<open>start\<close>; \<open>ctx\<close> is set exactly when \<open>canvas\<close> is).
  \<open>onComplete\<close> tells whether a completion function was given. \<open>next_frame_id\<close> and
  \<open>pending\<close> belong to the host: the handle the next \<open>requestAnimationFrame\<close> returns
  (handles are positive), and the requested frames that have neither run nor been
  cancelled.
\<close>

definition idle :: ctrl where
  "idle = \<lparr>canvas = None, view_w = 0, view_h = 0, startTime = None, onComplete = False,
           animFrameId = None, skipped = False, particles = None, next_frame_id = 1,
           pending = [], trace = []\<rparr>"

definition emit :: "event list \<Rightarrow> ctrl \<Rightarrow> ctrl" where
  "emit es st = st\<lparr>trace := trace st @ es\<rparr>"

definition requestAnimationFrame :: "ctrl \<Rightarrow> nat \<times> ctrl" where
  "requestAnimationFrame st =
     (let n = next_frame_id st
      in (n, st\<lparr>next_frame_id := n + 1, pending := pending st @ [n],
                 trace := trace st @ [RequestFrame n]\<rparr>))"

definition cancelAnimationFrame :: "nat \<Rightarrow> ctrl \<Rightarrow> ctrl" where
  "cancelAnimationFrame n st =
     st\<lparr>pending := removeAll n (pending st), trace := trace st @ [CancelFrame n]\<rparr>"

definition initParticles :: "ctrl \<Rightarrow> ctrl" where
  "initParticles st = st\<lparr>particles := Some build_pools\<rparr>"

definition phases :: "(renderer \<times> real \<times> real) list" where
  "phases = [(drawApproach, 0, 9000), (drawOptics, 6000, 18000),
             (drawDataTransform, 15000, 26000), (drawCosmos, 23000, 32000)]"

text \<open>
  \<^verbatim>\<open>
  for (const [fn, start, end] of phases) {
      if (elapsed >= start && elapsed <= end) {
          const t = (elapsed - start) / (end - start);
          fn(t, elapsed, zoom);
      }
  }
  \<close>
\<close>

text \<open>
  What one invocation of a renderer raises, if anything. \<open>drawOptics\<close> and \<open>drawCosmos\<close>
  loop over pools, which are undefined until \<open>initParticles\<close> has run.
\<close>

definition raised :: "canvas_call list option \<Rightarrow> event option" where
  "raised cs =
     (case cs of
        None \<Rightarrow> None
      | Some calls \<Rightarrow> if list_ex rejected calls then Some IndexSizeError else None)"

fun run_renderer :: "renderer \<Rightarrow> nat \<Rightarrow> nat \<Rightarrow> pools option \<Rightarrow> real \<Rightarrow> real \<Rightarrow> event option" where
  "run_renderer drawApproach w h ps t elapsed = raised (drawApproach_calls w h t elapsed)"
| "run_renderer drawOptics w h ps t elapsed =
     (case ps of
        None \<Rightarrow> if fade drawOptics t \<le> 0 then None else Some TypeError
      | Some p \<Rightarrow> raised (drawOptics_calls w h (lensRings p) t elapsed))"
| "run_renderer drawDataTransform w h ps t elapsed =
     raised (drawDataTransform_calls w h t elapsed)"
| "run_renderer drawCosmos w h ps t elapsed =
     (case ps of
        None \<Rightarrow> if fade drawCosmos t \<le> 0 then None else Some TypeError
      | Some p \<Rightarrow> raised (drawCosmos_calls w h p t elapsed))"

text \<open>
  The phase loop: the invocations made, in order, and the exception that ended the loop, if
  one did. A renderer that raises is the last one invoked.
\<close>

fun run_phases ::
  "(renderer \<times> real \<times> real) list \<Rightarrow> nat \<Rightarrow> nat \<Rightarrow> pools option \<Rightarrow> real \<Rightarrow> real
     \<Rightarrow> event list \<times> event option" where
  "run_phases [] w h ps elapsed zoom = ([], None)"
| "run_phases ((fn, startMs, endMs) # rest) w h ps elapsed zoom =
     (if elapsed \<ge> startMs \<and> elapsed \<le> endMs
      then (let t = (elapsed - startMs) / (endMs - startMs)
            in case run_renderer fn w h ps t elapsed of
                 Some e \<Rightarrow> ([Invoke fn t elapsed zoom], Some e)
               | None \<Rightarrow> (let (evs, exn) = run_phases rest w h ps elapsed zoom
                          in (Invoke fn t elapsed zoom # evs, exn)))
      else run_phases rest w h ps elapsed zoom)"

text \<open>
  \<^verbatim>\<open>if (!startTime) startTime = timestamp;\<close> takes the timestamp when \<open>startTime\<close> is
  \<open>null\<close>, and also when it is 0.
\<close>

definition clock_start :: "real option \<Rightarrow> real \<Rightarrow> real" where
  "clock_start st0 timestamp =
     (case st0 of None \<Rightarrow> timestamp | Some t0 \<Rightarrow> if t0 = 0 then timestamp else t0)"

text \<open>
  An exception raised by a renderer leaves \<open>render\<close> before
  \<^verbatim>\<open>animFrameId = requestAnimationFrame(render);\<close> is reached.
\<close>

definition render :: "real \<Rightarrow> ctrl \<Rightarrow> ctrl" where
  "render timestamp st =
     (if skipped st then st
      else (let t0 = clock_start (startTime st) timestamp;
                st1 = st\<lparr>startTime := Some t0\<rparr>;
                elapsed = timestamp - t0
            in if canvas st1 = None then emit [TypeError] st1
               else if elapsed \<ge> DURATION
               then emit (FillRect ''#0a0a0a'' (view_w st1) (view_h st1)
                            # (if onComplete st1 then [OnComplete] else [])) st1
               else (let zoom = getZoom elapsed;
                         (evs, exn) = run_phases phases (view_w st1) (view_h st1) (particles st1)
                                        elapsed zoom;
                         st2 = emit ([ClearRect (view_w st1) (view_h st1),
                                      FillRect ''#0a0a0a'' (view_w st1) (view_h st1)] @ evs) st1
                     in case exn of
                          Some e \<Rightarrow> emit [e] st2
                        | None \<Rightarrow> (let (n, st3) = requestAnimationFrame st2
                                   in st3\<lparr>animFrameId := Some n\<rparr>))))"

definition start :: "nat \<times> nat \<Rightarrow> bool \<Rightarrow> ctrl \<Rightarrow> ctrl" where
  "start canvasEl completeFn st =
     (let st1 = st\<lparr>canvas := Some canvasEl, view_w := fst canvasEl, view_h := snd canvasEl,
                    onComplete := completeFn, startTime := None, skipped := False\<rparr>;
          st2 = initParticles st1;
          (n, st3) = requestAnimationFrame st2
      in st3\<lparr>animFrameId := Some n\<rparr>)"

text \<open>\<^verbatim>\<open>if (animFrameId) { cancelAnimationFrame(animFrameId); animFrameId = null; }\<close>\<close>

definition cancel_pending :: "ctrl \<Rightarrow> ctrl" where
  "cancel_pending st =
     (case animFrameId st of
        None \<Rightarrow> st
      | Some n \<Rightarrow> if n = 0 then st else (cancelAnimationFrame n st)\<lparr>animFrameId := None\<rparr>)"

definition skip :: "ctrl \<Rightarrow> ctrl" where
  "skip st =
     (let st1 = cancel_pending (st\<lparr>skipped := True\<rparr>)
      in if canvas st1 = None then emit [TypeError] st1
         else emit (FillRect ''#0a0a0a'' (view_w st1) (view_h st1)
                      # (if onComplete st1 then [OnComplete] else [])) st1)"

definition resize :: "ctrl \<Rightarrow> ctrl" where
  "resize st =
     (case canvas st of
        None \<Rightarrow> st
      | Some (cw, ch) \<Rightarrow> initParticles (st\<lparr>view_w := cw, view_h := ch\<rparr>))"

definition stop :: "ctrl \<Rightarrow> ctrl" where
  "stop st = cancel_pending st"

text \<open>
  The host. It runs the oldest pending frame request by calling \<open>render\<close> with the frame's
  timestamp; with nothing pending, nothing runs. The page may change the size of the canvas
  element at any time.
\<close>

definition frame :: "real \<Rightarrow> ctrl \<Rightarrow> ctrl" where
  "frame timestamp st =
     (case pending st of
        [] \<Rightarrow> st
      | n # ns \<Rightarrow> render timestamp (st\<lparr>pending := ns\<rparr>))"

definition set_canvas_size :: "nat \<times> nat \<Rightarrow> ctrl \<Rightarrow> ctrl" where
  "set_canvas_size sz st = (case canvas st of None \<Rightarrow> st | Some old \<Rightarrow> st\<lparr>canvas := Some sz\<rparr>)"

definition completions :: "ctrl \<Rightarrow> nat" where
  "completions st = length (filter (\<lambda>e. e = OnComplete) (trace st))"

definition paints :: "ctrl \<Rightarrow> nat" where
  "paints st =
     length (filter (\<lambda>e. case e of ClearRect a b \<Rightarrow> True | FillRect c a b \<Rightarrow> True
                              | Invoke fn t el z \<Rightarrow> True | _ \<Rightarrow> False) (trace st))"


datatype op = Frame real | Skip | Resize | Stop

fun step :: "op \<Rightarrow> ctrl \<Rightarrow> ctrl" where
  "step (Frame ts) st = frame ts st"
| "step Skip st = skip st"
| "step Resize st = resize st"
| "step Stop st = stop st"

fun run :: "op list \<Rightarrow> ctrl \<Rightarrow> ctrl" where
  "run [] st = st"
| "run (x # xs) st = run xs (step x st)"

section \<open>Pools of the landing page\<close>












text \<open>The number of elements in each pool of the observatory sequence, in the order built.\<close>

definition pool_counts :: "ctrl \<Rightarrow> nat list" where
  "pool_counts st =
     (case particles st of
        None \<Rightarrow> []
      | Some p \<Rightarrow> [length (bgStars p), length (dust p), length (lensRings p), length (stars p),
                   length (neural_nodes p), length (neural_edges p), length (candles p),
                   length (comets p), length (orderCols p)])"

section \<open>Page glue\<close>

text \<open>
  The page holds five flags and the observatory controller. It hands the controller the
  completion function \<^verbatim>\<open>() => { if (!landingSequenceFinished) revealMainSite(); }\<close>.
  The controller calls it as the last statement of \<open>skip\<close> and of the completing frame, so
  its effect on the page is applied after the controller call, once for each \<open>OnComplete\<close>
  event the call added. \<open>reveals\<close> counts how often the body of \<open>revealMainSite\<close> ran past
  its guard. The record holds the flags and the controller only: the classes set on the
  page elements, the timer that hides the landing surface, and the frames of the orbit-lines
  and ambient-dots animations do not touch either.
\<close>

datatype dom_event = Click | TouchStart | KeyDown string

record page =
  landingSequenceFinished :: bool
  skipRequested :: bool
  observatoryStarted :: bool
  skipHandlersAttached :: bool
  dotsAnimationRunning :: bool
  window_size :: "nat \<times> nat"
  reveals :: nat
  obs :: ctrl

definition page_init :: "nat \<times> nat \<Rightarrow> page" where
  "page_init sz = \<lparr>landingSequenceFinished = False, skipRequested = False,
                    observatoryStarted = False, skipHandlersAttached = True,
                    dotsAnimationRunning = False, window_size = sz, reveals = 0, obs = idle\<rparr>"

definition ensureDotsAnimation :: "page \<Rightarrow> page" where
  "ensureDotsAnimation pg =
     (if dotsAnimationRunning pg then pg else pg\<lparr>dotsAnimationRunning := True\<rparr>)"

definition revealMainSite :: "page \<Rightarrow> page" where
  "revealMainSite pg =
     (if landingSequenceFinished pg then pg
      else ensureDotsAnimation
             (pg\<lparr>landingSequenceFinished := True, skipRequested := True,
                  skipHandlersAttached := False, reveals := reveals pg + 1\<rparr>))"

definition completeFn :: "page \<Rightarrow> page" where
  "completeFn pg = (if \<not> landingSequenceFinished pg then revealMainSite pg else pg)"

definition call_obs :: "(ctrl \<Rightarrow> ctrl) \<Rightarrow> page \<Rightarrow> page" where
  "call_obs f pg =
     (let st = obs pg; st' = f st
      in (completeFn ^^ (completions st' - completions st)) (pg\<lparr>obs := st'\<rparr>))"

definition skipIntro :: "dom_event \<Rightarrow> page \<Rightarrow> page" where
  "skipIntro ev pg =
     (if landingSequenceFinished pg then pg
      else if (case ev of KeyDown key \<Rightarrow> key = ''Tab'' | _ \<Rightarrow> False) then pg
      else (let pg1 = pg\<lparr>skipRequested := True\<rparr>
            in if observatoryStarted pg1 then call_obs skip pg1 else revealMainSite pg1))"

definition startObservatorySequence :: "page \<Rightarrow> page" where
  "startObservatorySequence pg =
     (if landingSequenceFinished pg \<or> observatoryStarted pg then pg
      else (let pg1 = pg\<lparr>observatoryStarted := True, skipHandlersAttached := True\<rparr>
            in if skipRequested pg1 then revealMainSite pg1
               else call_obs (start (window_size pg1) True) pg1))"

text \<open>
  What can happen to the page: an input event reaches \<open>skipIntro\<close> while the listeners are
  attached; the orbit-lines animation ends and calls \<open>startObservatorySequence\<close>; the host
  runs a pending frame of the observatory; the window is resized (the canvas element takes
  the window size and \<open>ObservatoryAnimation.resize\<close> is called).
\<close>

datatype page_op = DomEvent dom_event | LinesDone | AnimFrame real | WindowResize "nat \<times> nat"

fun page_step :: "page_op \<Rightarrow> page \<Rightarrow> page" where
  "page_step (DomEvent ev) pg = (if skipHandlersAttached pg then skipIntro ev pg else pg)"
| "page_step LinesDone pg = startObservatorySequence pg"
| "page_step (AnimFrame ts) pg = call_obs (frame ts) pg"
| "page_step (WindowResize sz) pg =
     call_obs (\<lambda>st. resize (set_canvas_size sz st)) (pg\<lparr>window_size := sz\<rparr>)"

fun page_run :: "page_op list \<Rightarrow> page \<Rightarrow> page" where
  "page_run [] pg = pg"
| "page_run (x # xs) pg = page_run xs (page_step x pg)"

section \<open>Auxiliary notions for the proofs\<close>

text \<open>
  None of the definitions in this section comes from the source; they name states and
  quantities that the proofs below talk about.
\<close>

text \<open>A state is live when it lies strictly between 0 and the modulus.\<close>

definition live :: "int \<Rightarrow> bool" where
  "live s \<longleftrightarrow> 0 < s \<and> s < 2147483647"

text \<open>A state from which every later state is live: positive and not a multiple of the modulus.\<close>

definition good :: "int \<Rightarrow> bool" where
  "good s \<longleftrightarrow> 0 < s \<and> \<not> 2147483647 dvd s"

text \<open>The controller after \<open>start\<close> on an 800 by 600 canvas and a first frame at timestamp 1000.\<close>

definition running_example :: ctrl where
  "running_example = frame 1000 (start (800, 600) True idle)"



text \<open>
  The invariant of the page: the body of \<open>revealMainSite\<close> has run exactly when the landing
  sequence is finished; before the controller is started nothing is pending and nothing has
  completed; once it is started it either still runs, with no completion so far and with
  exactly its latest frame request pending (or with nothing pending, after a frame in which
  a renderer raised), or the landing sequence is finished, the completion function has been
  called once, and no frame can paint any more.
\<close>

definition page_inv :: "page \<Rightarrow> bool" where
  "page_inv pg \<longleftrightarrow>
     next_frame_id (obs pg) \<noteq> 0
     \<and> reveals pg = (if landingSequenceFinished pg then 1 else 0)
     \<and> (\<not> skipHandlersAttached pg \<longrightarrow> landingSequenceFinished pg)
     \<and> (if canvas (obs pg) = None
        then completions (obs pg) = 0 \<and> pending (obs pg) = []
             \<and> (observatoryStarted pg \<longrightarrow> landingSequenceFinished pg)
             \<and> (skipRequested pg \<longrightarrow> landingSequenceFinished pg)
        else observatoryStarted pg \<and> onComplete (obs pg)
             \<and> (if landingSequenceFinished pg
                 then completions (obs pg) = 1 \<and> (skipped (obs pg) \<or> pending (obs pg) = [])
                 else completions (obs pg) = 0 \<and> \<not> skipped (obs pg)
                      \<and> (pending (obs pg) = []
                          \<or> (\<exists>n. n \<noteq> 0 \<and> animFrameId (obs pg) = Some n
                                 \<and> pending (obs pg) = [n]))))"

text \<open>
  One call of the generator on the state alone, and the powers of the multiplier modulo
  2147483647, for the closed form of the state after \<open>n\<close> calls.
\<close>

definition adv :: "int \<Rightarrow> int" where
  "adv s = snd (rng_call s)"

definition pw :: "nat \<Rightarrow> int" where
  "pw n = 16807 ^ n mod 2147483647"

text \<open>
  The generator state when the star pool is complete, the node pool with the state after
  it, and the state when the edge loops are done: the state the candlesticks start from.
\<close>

definition star_end :: int where
  "star_end =
     snd (push_each mk_star [0 ..< 800]
       (snd (push_each mk_lensRing [0 ..< 12]
         (snd (push_each mk_dust [0 ..< 300]
           (snd (push_each mk_bgStar [0 ..< 180] (seededRng 42))))))))"

definition node_pool :: "node list \<times> int" where
  "node_pool = push_each mk_node [0 ..< 55] star_end"

definition candle_seed :: int where
  "candle_seed = snd (edges_outer (fst node_pool) [0 ..< 55] ([], snd node_pool))"

text \<open>
  The edge loops, reduced to what they do to the generator state. A node is given by the two
  generator states its coordinates were drawn from; \<open>coord\<close> turns such a state into the
  coordinate. Two nodes are \<open>near\<close> when their distance is below 0.26, written on the
  integers; \<open>inner_st\<close> and \<open>outer_st\<close> follow the inner and the outer loop.
\<close>

definition coord :: "int \<Rightarrow> real" where
  "coord a = (real_of_int (a - 1) / 2147483646 - 0.5) * 0.95"

fun node_sts :: "nat \<Rightarrow> int \<Rightarrow> (int \<times> int) list" where
  "node_sts 0 s = []"
| "node_sts (Suc n) s = (adv s, adv (adv s)) # node_sts n (adv (adv (adv (adv (adv s)))))"

definition near :: "int \<times> int \<Rightarrow> int \<times> int \<Rightarrow> bool" where
  "near p q \<longleftrightarrow>
     9025 * ((fst p - fst q) * (fst p - fst q) + (snd p - snd q) * (snd p - snd q))
       < 676 * (2147483646 * 2147483646)"

fun inner_st :: "int \<times> int \<Rightarrow> (int \<times> int) list \<Rightarrow> int \<Rightarrow> int" where
  "inner_st p [] s = s"
| "inner_st p (q # qs) s =
     (if near p q
      then (if 6442450938 < 10 * (adv s - 1) then inner_st p qs (adv (adv s))
            else inner_st p qs (adv s))
      else inner_st p qs s)"

fun outer_st :: "(int \<times> int) list \<Rightarrow> int \<Rightarrow> int" where
  "outer_st [] s = s"
| "outer_st (p # ps) s = outer_st ps (inner_st p ps s)"

text \<open>The generator states behind the coordinates of the 55 nodes, in order.\<close>

definition node_states :: "(int \<times> int) list" where
  "node_states =
    [(259961560, 1192200922), (331910506, 1404843083), (750964759, 703311094),
     (99483130, 1270688544), (728460156, 425570345), (1883252592, 64840611),
     (1694680400, 417872639), (9770835, 1009666673), (1653906290, 174689262),
     (132950705, 1119506055), (1749877637, 404899394), (1017530732, 1226731663),
     (149512821, 306115557), (1292506326, 1356731677), (1376048652, 998299621),
     (1869984574, 407561373), (1059465615, 1651674028), (1796874454, 6420617),
     (1791173034, 819418792), (110280697, 209287118), (602537736, 1466333347),
     (97287325, 873015908), (806315397, 1121064809), (1165195588, 538870523),
     (995590842, 1850187717), (1041949306, 1460328304), (603758489, 508692548),
     (534026696, 1052518859), (1143037511, 1790224962), (2134495638, 753864731),
     (699189772, 251981620), (548219219, 1215568103), (1724186684, 261265370),
     (896636248, 872669137), (1740691488, 632115735), (533946275, 1848366759),
     (1843117343, 1969059473), (121477845, 1568676265), (1905749345, 210646410),
     (1579905839, 1989624565), (462536627, 2109771496), (2080338190, 1062702523),
     (793135290, 793822101), (746035141, 1603083601), (178172723, 956751543),
     (891020307, 974829218), (941742241, 907366097), (197386566, 1761263794),
     (1009520915, 1897207105), (2135361754, 278290814), (1190101266, 369289504),
     (1562391319, 1828346564), (1675864488, 2006419411), (1178795469, 1478803908),
     (1058950735, 1588020456)]"

section \<open>Properties of the generator\<close>

lemma js_rem_nonneg: "0 \<le> a \<Longrightarrow> 0 < b \<Longrightarrow> js_rem a b = a mod b"
  by (cases "a = 0") (simp_all add: js_rem_def)

lemma rng_call_snd_mod:
  assumes "0 \<le> s"
  shows "snd (rng_call s) = (s * 16807) mod 2147483647"
  using assms by (simp add: rng_call_def Let_def js_rem_nonneg)

lemma rng_call_fst: "fst (rng_call s) = real_of_int (snd (rng_call s) - 1) / 2147483646"
  by (simp add: rng_call_def Let_def)

lemma coprime_mult_modulus: "coprime (16807::int) 2147483647"
proof -
  have "gcd (16807::int) 2147483647 = 1"
    by code_simp
  then show ?thesis
    by (simp add: coprime_iff_gcd_eq_1)
qed

lemma step_not_dvd:
  assumes "\<not> 2147483647 dvd (s::int)"
  shows "\<not> 2147483647 dvd (s * 16807) mod 2147483647"
proof
  assume "2147483647 dvd (s * 16807) mod 2147483647"
  then have "2147483647 dvd s * 16807"
    by (simp add: dvd_mod_iff)
  then have "2147483647 dvd s"
    using coprime_mult_modulus by (metis coprime_commute coprime_dvd_mult_left_iff)
  with assms show False by simp
qed

lemma live_step:
  assumes "0 < s" "\<not> 2147483647 dvd s"
  shows "live (snd (rng_call s))" "\<not> 2147483647 dvd snd (rng_call s)"
proof -
  let ?t = "(s * 16807) mod 2147483647"
  have eq: "snd (rng_call s) = ?t"
    using assms(1) by (simp add: rng_call_snd_mod)
  have nd: "\<not> 2147483647 dvd ?t"
    using assms(2) by (rule step_not_dvd)
  have "0 \<le> ?t" "?t < 2147483647" by simp_all
  moreover have "?t \<noteq> 0" using nd by auto
  ultimately show "live (snd (rng_call s))"
    by (simp add: eq live_def)
  show "\<not> 2147483647 dvd snd (rng_call s)"
    using nd by (simp add: eq)
qed

lemma live_output:
  assumes "live s"
  shows "0 \<le> real_of_int (s - 1) / 2147483646" "real_of_int (s - 1) / 2147483646 < 1"
  using assms by (simp_all add: live_def)

lemma rng_call_range:
  assumes "0 < s" "\<not> 2147483647 dvd s"
  shows "0 \<le> fst (rng_call s)" "fst (rng_call s) < 1"
  using live_output [OF live_step(1) [OF assms]] by (simp_all add: rng_call_fst)

lemma rng_calls_length: "length (fst (rng_calls n s)) = n"
  by (induction n arbitrary: s) (simp_all add: split_beta Let_def)

lemma rng_calls_nth:
  assumes "0 < s" "\<not> 2147483647 dvd s" "k < n"
  shows "fst (rng_calls n s) ! k = real_of_int ((s * 16807 ^ Suc k) mod 2147483647 - 1) / 2147483646
    \<and> 0 \<le> fst (rng_calls n s) ! k \<and> fst (rng_calls n s) ! k < 1"
  using assms
proof (induction n arbitrary: s k)
  case 0
  then show ?case by simp
next
  case (Suc n)
  let ?s1 = "snd (rng_call s)"
  have s1: "?s1 = (s * 16807) mod 2147483647"
    using Suc.prems(1) by (simp add: rng_call_snd_mod)
  have l1: "0 < ?s1" "\<not> 2147483647 dvd ?s1"
    using live_step [OF Suc.prems(1,2)] by (simp_all add: live_def)
  show ?case
  proof (cases k)
    case 0
    then show ?thesis
      using rng_call_range [OF Suc.prems(1,2)] s1
      by (simp add: split_beta Let_def rng_call_fst)
  next
    case (Suc j)
    then have "j < n" using Suc.prems(3) by simp
    from Suc.IH [OF l1 this]
    have ih: "fst (rng_calls n ?s1) ! j = real_of_int ((?s1 * 16807 ^ Suc j) mod 2147483647 - 1) / 2147483646
      \<and> 0 \<le> fst (rng_calls n ?s1) ! j \<and> fst (rng_calls n ?s1) ! j < 1" .
    have "(?s1 * 16807 ^ Suc j) mod 2147483647 = (s * 16807 * 16807 ^ Suc j) mod 2147483647"
      unfolding s1 by (rule mod_mult_left_eq)
    also have "\<dots> = (s * 16807 ^ Suc (Suc j)) mod 2147483647"
      by (simp add: mult.assoc)
    finally have e: "(?s1 * 16807 ^ Suc j) mod 2147483647 = (s * 16807 ^ Suc (Suc j)) mod 2147483647" .
    show ?thesis
      using ih e Suc by (simp add: split_beta Let_def)
  qed
qed

text \<open>Outputs of two generators under any interleaving of calls.\<close>

lemma rng_calls_Suc_fst:
  "fst (rng_calls (Suc n) s) = fst (rng_call s) # fst (rng_calls n (snd (rng_call s)))"
  by (simp add: split_beta Let_def)

lemma run_two_eq:
  "run_two cs (a, b) =
     (fst (rng_calls (length (filter (\<lambda>c. c) cs)) a),
      fst (rng_calls (length (filter (\<lambda>c. \<not> c) cs)) b))"
proof (induction cs arbitrary: a b)
  case Nil
  then show ?case by simp
next
  case (Cons c cs)
  show ?case
  proof (cases c)
    case True
    then show ?thesis
      using Cons.IH [of "snd (rng_call a)" b] by (simp add: split_beta Let_def)
  next
    case False
    then show ?thesis
      using Cons.IH [of a "snd (rng_call b)"] by (simp add: split_beta Let_def)
  qed
qed

lemma rng_calls_take:
  "take n (fst (rng_calls (n + m) s)) = fst (rng_calls n s)"
  by (induction n arbitrary: s) (simp_all add: split_beta Let_def)

lemma rng_calls_nth_prefix:
  assumes "k < n" "k < m"
  shows "fst (rng_calls n s) ! k = fst (rng_calls m s) ! k"
  using assms
proof (induction n arbitrary: s k m)
  case 0
  then show ?case by simp
next
  case (Suc n)
  then obtain m' where m: "m = Suc m'" by (cases m) auto
  show ?case
  proof (cases k)
    case 0
    then show ?thesis by (simp add: m split_beta Let_def)
  next
    case (Suc j)
    then have "j < n" "j < m'" using Suc.prems m by simp_all
    from Suc.IH [OF this] show ?thesis
      using Suc by (simp add: m split_beta Let_def)
  qed
qed

section \<open>Claims about the generator\<close>

text \<open>
  Claim C5, as stated for every integer seed, fails: with seed 0 the state stays 0 and the
  first output is \<open>(0 - 1) / 2147483646\<close>, below 0.
\<close>

theorem seededRng_zero_seed_counterexample:
  "fst (rng_calls 1 (seededRng 0)) ! 0 = - 1 / 2147483646 \<and> \<not> 0 \<le> fst (rng_calls 1 (seededRng 0)) ! 0"
  by (simp add: seededRng_def rng_call_def js_rem_def Let_def)

text \<open>
  Claim C5, amended: for every positive integer seed that is not a multiple of 2147483647
  and whose first product \<open>seed * 16807\<close> is below \<open>2 ^ 53\<close> (exact in a double), the
  \<open>k\<close>-th call of the generator returned by \<open>seededRng seed\<close> leaves the state
  \<open>(seed * 16807 ^ (k + 1)) mod 2147483647\<close>, returns \<open>(state - 1) / 2147483646\<close>, and this
  value lies in \<open>[0, 1)\<close>.
\<close>

theorem seededRng_recurrence_range:
  assumes "0 < seed" and "\<not> 2147483647 dvd seed" and "seed * 16807 < 2 ^ 53" and "k < n"
  shows "fst (rng_calls n (seededRng seed)) ! k
           = real_of_int ((seed * 16807 ^ Suc k) mod 2147483647 - 1) / 2147483646
       \<and> 0 \<le> fst (rng_calls n (seededRng seed)) ! k
       \<and> fst (rng_calls n (seededRng seed)) ! k < 1"
  using rng_calls_nth [OF assms(1,2,4)] by (simp add: seededRng_def)

text \<open>Claim C5, amended, for seed 42 and the second output.\<close>

theorem seededRng_recurrence_range_witness:
  "fst (rng_calls 2 (seededRng 42)) ! 1 = real_of_int (11863960458 mod 2147483647 - 1) / 2147483646
     \<and> 0 \<le> fst (rng_calls 2 (seededRng 42)) ! 1 \<and> fst (rng_calls 2 (seededRng 42)) ! 1 < 1"
  using seededRng_recurrence_range [of 42 1 2] by simp

text \<open>
  Claim C6: two generators created from the same seed, called in any interleaving, produce
  the same sequence: whenever both have produced their \<open>n\<close>-th output, the two outputs are
  equal. The only input of a call is the closure variable of the generator called.
\<close>

theorem seededRng_deterministic:
  assumes "run_two cs (seededRng seed, seededRng seed) = (xs, ys)"
    and "n < length xs" and "n < length ys"
  shows "xs ! n = ys ! n"
proof -
  have xs: "xs = fst (rng_calls (length (filter (\<lambda>c. c) cs)) (seededRng seed))"
    and ys: "ys = fst (rng_calls (length (filter (\<lambda>c. \<not> c) cs)) (seededRng seed))"
    using assms(1) by (simp_all add: run_two_eq)
  have "n < length (filter (\<lambda>c. c) cs)" "n < length (filter (\<lambda>c. \<not> c) cs)"
    using assms(2,3) by (simp_all add: xs ys rng_calls_length)
  then show ?thesis
    unfolding xs ys by (rule rng_calls_nth_prefix)
qed

text \<open>Claim C6 for seed 42 and the schedule first, second, second, first.\<close>

theorem seededRng_deterministic_witness:
  "run_two [True, False, False, True] (seededRng 42, seededRng 42)
     = ([705893 / 2147483646, 1126542222 / 2147483646],
        [705893 / 2147483646, 1126542222 / 2147483646])
   \<and> [705893 / 2147483646, (1126542222::real) / 2147483646] ! 1
     = [705893 / 2147483646, (1126542222::real) / 2147483646] ! 1"
  using seededRng_deterministic [of "[True, False, False, True]" 42
      "[705893 / 2147483646, 1126542222 / 2147483646]"
      "[705893 / 2147483646, 1126542222 / 2147483646]" 1]
  by (simp add: seededRng_def rng_call_def js_rem_def Let_def)

section \<open>Properties of the renderers\<close>



lemma run_renderer_cases:
  "run_renderer fn w h ps t elapsed = None
   \<or> run_renderer fn w h ps t elapsed = Some IndexSizeError
   \<or> run_renderer fn w h ps t elapsed = Some TypeError"
  by (cases fn; cases ps) (auto simp add: raised_def split: option.split)

lemma gate_closed:
  assumes "fade fn t \<le> 0"
  shows "run_renderer fn w h ps t elapsed = None"
  using assms
  by (cases fn; cases ps)
     (simp_all add: raised_def drawApproach_calls_def drawOptics_calls_def
        drawDataTransform_calls_def drawCosmos_calls_def)








lemma fade_at_0: "fade fn 0 = 0"
  by (cases fn) (simp_all add: smoothstep_def clamp_def)











section \<open>Properties of the controller\<close>

lemma run_phases_eq:
  "run_phases ps w h pl elapsed zoom =
     (map (\<lambda>(fn, a, b). Invoke fn ((elapsed - a) / (b - a)) elapsed zoom)
          (takeWhile (\<lambda>(fn, a, b). run_renderer fn w h pl ((elapsed - a) / (b - a)) elapsed = None)
             (filter (\<lambda>(fn, a, b). a \<le> elapsed \<and> elapsed \<le> b) ps))
      @ (case dropWhile (\<lambda>(fn, a, b). run_renderer fn w h pl ((elapsed - a) / (b - a)) elapsed = None)
                (filter (\<lambda>(fn, a, b). a \<le> elapsed \<and> elapsed \<le> b) ps) of
           [] \<Rightarrow> []
         | (fn, a, b) # rest \<Rightarrow> [Invoke fn ((elapsed - a) / (b - a)) elapsed zoom]),
      case dropWhile (\<lambda>(fn, a, b). run_renderer fn w h pl ((elapsed - a) / (b - a)) elapsed = None)
                (filter (\<lambda>(fn, a, b). a \<le> elapsed \<and> elapsed \<le> b) ps) of
        [] \<Rightarrow> None
      | (fn, a, b) # rest \<Rightarrow> run_renderer fn w h pl ((elapsed - a) / (b - a)) elapsed)"
  by (induction ps w h pl elapsed zoom rule: run_phases.induct)
     (auto simp add: Let_def split: option.split)

lemma run_phases_invokes:
  "e \<in> set (fst (run_phases ps w h pl elapsed zoom)) \<Longrightarrow> \<exists>fn t. e = Invoke fn t elapsed zoom"
  by (induction ps w h pl elapsed zoom rule: run_phases.induct)
     (auto simp add: Let_def split: option.splits if_splits prod.splits)

lemma run_phases_exn:
  assumes "snd (run_phases ps w h pl elapsed zoom) = Some e"
  shows "e = IndexSizeError \<or> e = TypeError"
proof -
  obtain fn a b where "run_renderer fn w h pl ((elapsed - a) / (b - a)) elapsed = Some e"
    using assms unfolding run_phases_eq by (auto split: list.splits)
  then show ?thesis
    using run_renderer_cases [of fn w h pl "(elapsed - a) / (b - a)" elapsed] by auto
qed

lemma run_phases_no_completion:
  "filter (\<lambda>e. e = OnComplete) (fst (run_phases ps w h pl elapsed zoom)) = []"
  unfolding filter_empty_conv using run_phases_invokes by fastforce

lemma render_running:
  assumes "\<not> skipped st" and "canvas st \<noteq> None"
    and "timestamp - clock_start (startTime st) timestamp < DURATION"
    and "run_phases phases (view_w st) (view_h st) (particles st)
           (timestamp - clock_start (startTime st) timestamp)
           (getZoom (timestamp - clock_start (startTime st) timestamp)) = (evs, None)"
  shows "render timestamp st =
     st\<lparr>startTime := Some (clock_start (startTime st) timestamp),
        animFrameId := Some (next_frame_id st),
        next_frame_id := next_frame_id st + 1,
        pending := pending st @ [next_frame_id st],
        trace := trace st @ [ClearRect (view_w st) (view_h st),
                             FillRect ''#0a0a0a'' (view_w st) (view_h st)]
                   @ evs @ [RequestFrame (next_frame_id st)]\<rparr>"
  using assms
  by (auto simp add: render_def Let_def emit_def requestAnimationFrame_def)

lemma render_raising:
  assumes "\<not> skipped st" and "canvas st \<noteq> None"
    and "timestamp - clock_start (startTime st) timestamp < DURATION"
    and "run_phases phases (view_w st) (view_h st) (particles st)
           (timestamp - clock_start (startTime st) timestamp)
           (getZoom (timestamp - clock_start (startTime st) timestamp)) = (evs, Some e)"
  shows "render timestamp st =
     st\<lparr>startTime := Some (clock_start (startTime st) timestamp),
        trace := trace st @ [ClearRect (view_w st) (view_h st),
                             FillRect ''#0a0a0a'' (view_w st) (view_h st)]
                   @ evs @ [e]\<rparr>"
  using assms
  by (auto simp add: render_def Let_def emit_def)

lemma render_completing:
  assumes "\<not> skipped st" and "canvas st \<noteq> None"
    and "timestamp - clock_start (startTime st) timestamp \<ge> DURATION"
  shows "render timestamp st =
     st\<lparr>startTime := Some (clock_start (startTime st) timestamp),
        trace := trace st @ FillRect ''#0a0a0a'' (view_w st) (view_h st)
                              # (if onComplete st then [OnComplete] else [])\<rparr>"
  using assms
  by (auto simp add: render_def Let_def emit_def)

lemma render_skipped: "skipped st \<Longrightarrow> render timestamp st = st"
  by (simp add: render_def)


lemma first_frame_phases:
  "run_phases phases w h ps 0 zoom = ([Invoke drawApproach 0 0 zoom], None)"
proof -
  have "run_renderer drawApproach w h ps 0 0 = None"
    by (rule gate_closed) (simp add: fade_at_0)
  then show ?thesis
    by (simp add: phases_def del: run_renderer.simps)
qed

lemma running_example_fields:
  "skipped running_example = False" "canvas running_example = Some (800, 600)"
  "startTime running_example = Some 1000" "onComplete running_example = True"
  "view_w running_example = 800" "view_h running_example = 600"
  "next_frame_id running_example = 3" "pending running_example = [2]"
  "animFrameId running_example = Some 2"
  "particles running_example = Some build_pools"
  "trace running_example = [RequestFrame 1, ClearRect 800 600, FillRect ''#0a0a0a'' 800 600,
      Invoke drawApproach 0 0 1, RequestFrame 2]"
  by (simp_all add: running_example_def frame_def start_def initParticles_def
      requestAnimationFrame_def render_def idle_def Let_def emit_def clock_start_def
      DURATION_def first_frame_phases getZoom_def easeIn_def)












lemma cancel_pending_fields:
  "skipped (cancel_pending st) = skipped st" "canvas (cancel_pending st) = canvas st"
  "onComplete (cancel_pending st) = onComplete st" "view_w (cancel_pending st) = view_w st"
  "view_h (cancel_pending st) = view_h st" "startTime (cancel_pending st) = startTime st"
  "particles (cancel_pending st) = particles st"
  by (simp_all add: cancel_pending_def cancelAnimationFrame_def split: option.split)

lemma skip_skipped: "skipped (skip st)"
  by (simp add: skip_def Let_def emit_def cancel_pending_fields)

lemma frame_trace_skipped: "skipped st \<Longrightarrow> trace (frame ts st) = trace st \<and> skipped (frame ts st)"
  by (simp add: frame_def render_def split: list.split)

lemma run_frames_skipped:
  "skipped st \<Longrightarrow> trace (run (map Frame tss) st) = trace st \<and> skipped (run (map Frame tss) st)"
proof (induction tss arbitrary: st)
  case Nil
  then show ?case by simp
next
  case (Cons ts tss)
  have s: "skipped (frame ts st)" and t: "trace (frame ts st) = trace st"
    using frame_trace_skipped [OF Cons.prems] by simp_all
  show ?case
    using Cons.IH [OF s] t by simp
qed

lemma skip_cancels:
  assumes "animFrameId st = Some n" "n \<noteq> 0"
  shows "n \<notin> set (pending (skip st))" "animFrameId (skip st) = None"
  using assms
  by (simp_all add: skip_def Let_def emit_def cancel_pending_def cancelAnimationFrame_def)

text \<open>
  Claim C8. After \<open>skip\<close> has returned, a \<open>render\<close> callback that still arrives returns
  at once and leaves the state as it is; whatever frames the host still runs, the trace (and
  so the number of paints) stays what it was when \<open>skip\<close> returned, and no frame is
  requested. The frame request the controller held is cancelled by \<open>skip\<close> itself.
\<close>

theorem no_frame_after_skip:
  "render ts (skip st) = skip st
   \<and> trace (run (map Frame tss) (skip st)) = trace (skip st)
   \<and> paints (run (map Frame tss) (skip st)) = paints (skip st)
   \<and> (\<forall>n. animFrameId st = Some n \<and> n \<noteq> 0 \<longrightarrow>
         n \<notin> set (pending (skip st)) \<and> CancelFrame n \<in> set (trace (skip st)))"
proof (intro conjI allI impI)
  show "render ts (skip st) = skip st"
    by (rule render_skipped) (rule skip_skipped)
  show t: "trace (run (map Frame tss) (skip st)) = trace (skip st)"
    using run_frames_skipped [OF skip_skipped] by simp
  show "paints (run (map Frame tss) (skip st)) = paints (skip st)"
    by (simp add: paints_def t)
next
  fix n
  assume a: "animFrameId st = Some n \<and> n \<noteq> 0"
  then show "n \<notin> set (pending (skip st))"
    using skip_cancels(1) by simp
  show "CancelFrame n \<in> set (trace (skip st))"
    using a by (simp add: skip_def Let_def emit_def cancel_pending_def cancelAnimationFrame_def)
qed

text \<open>Claim C8 on the running controller, which holds frame request 2.\<close>

theorem no_frame_after_skip_witness:
  "render 2000 (skip running_example) = skip running_example
   \<and> trace (run (map Frame [2000, 2016]) (skip running_example)) = trace (skip running_example)
   \<and> paints (run (map Frame [2000, 2016]) (skip running_example)) = paints (skip running_example)
   \<and> 2 \<notin> set (pending (skip running_example))
   \<and> CancelFrame 2 \<in> set (trace (skip running_example))"
  using no_frame_after_skip [of 2000 running_example "[2000, 2016]"]
  by (simp add: running_example_fields)

text \<open>
  Claim C1, as stated for the controller alone, fails: \<open>skip\<close> does not look at any
  terminal flag before it calls the completion function. Called twice after \<open>start\<close> it
  calls the function twice; called after the completing frame it calls it a second time.
\<close>

theorem skip_twice_counterexample:
  "completions (start (800, 600) True idle) = 0
   \<and> completions (skip (start (800, 600) True idle)) = 1
   \<and> completions (skip (skip (start (800, 600) True idle))) = 2
   \<and> completions (frame 33000 running_example) = 1
   \<and> completions (skip (frame 33000 running_example)) = 2"
  by (simp add: completions_def skip_def start_def running_example_def frame_def render_def
      initParticles_def requestAnimationFrame_def cancel_pending_def cancelAnimationFrame_def
      idle_def Let_def emit_def clock_start_def DURATION_def first_frame_phases getZoom_def
      easeIn_def)

section \<open>The page invariant\<close>

lemma completions_emit:
  "completions (emit es st) = completions st + length (filter (\<lambda>e. e = OnComplete) es)"
  by (simp add: completions_def emit_def)

lemma skip_completions:
  assumes "canvas st \<noteq> None" "onComplete st"
  shows "completions (skip st) = Suc (completions st)"
  using assms
  by (auto simp add: skip_def Let_def emit_def completions_def cancel_pending_def
      cancelAnimationFrame_def split: option.split)

lemma skip_fields:
  "canvas (skip st) = canvas st" "onComplete (skip st) = onComplete st"
  "next_frame_id (skip st) = next_frame_id st"
  by (simp_all add: skip_def Let_def emit_def cancel_pending_def cancelAnimationFrame_def
      split: option.split)

lemma resize_fields:
  "trace (resize (set_canvas_size sz st)) = trace st"
  "pending (resize (set_canvas_size sz st)) = pending st"
  "skipped (resize (set_canvas_size sz st)) = skipped st"
  "animFrameId (resize (set_canvas_size sz st)) = animFrameId st"
  "next_frame_id (resize (set_canvas_size sz st)) = next_frame_id st"
  "onComplete (resize (set_canvas_size sz st)) = onComplete st"
  "startTime (resize (set_canvas_size sz st)) = startTime st"
  "canvas (resize (set_canvas_size sz st)) = (case canvas st of None \<Rightarrow> None | Some old \<Rightarrow> Some sz)"
  by (simp_all add: resize_def set_canvas_size_def initParticles_def split: option.split prod.split)

lemma resize_completions: "completions (resize (set_canvas_size sz st)) = completions st"
  by (simp add: completions_def resize_fields)

lemma start_fields:
  "canvas (start sz cb st) = Some sz" "onComplete (start sz cb st) = cb"
  "skipped (start sz cb st) = False" "startTime (start sz cb st) = None"
  "animFrameId (start sz cb st) = Some (next_frame_id st)"
  "pending (start sz cb st) = pending st @ [next_frame_id st]"
  "next_frame_id (start sz cb st) = Suc (next_frame_id st)"
  "trace (start sz cb st) = trace st @ [RequestFrame (next_frame_id st)]"
  "particles (start sz cb st) = Some build_pools"
  "view_w (start sz cb st) = fst sz" "view_h (start sz cb st) = snd sz"
  by (simp_all add: start_def Let_def initParticles_def requestAnimationFrame_def)

lemma start_completions: "completions (start sz cb st) = completions st"
  by (simp add: completions_def start_fields)

lemma call_obs_same:
  assumes "completions (f (obs pg)) = completions (obs pg)"
  shows "call_obs f pg = pg\<lparr>obs := f (obs pg)\<rparr>"
  using assms by (simp add: call_obs_def Let_def)

lemma call_obs_one:
  assumes "completions (f (obs pg)) = Suc (completions (obs pg))"
  shows "call_obs f pg = completeFn (pg\<lparr>obs := f (obs pg)\<rparr>)"
  using assms by (simp add: call_obs_def Let_def)

lemma page_inv_event:
  assumes "page_inv pg"
  shows "page_inv (page_step (DomEvent ev) pg)"
proof (cases "skipHandlersAttached pg \<and> \<not> landingSequenceFinished pg
     \<and> \<not> (case ev of KeyDown key \<Rightarrow> key = ''Tab'' | _ \<Rightarrow> False)")
  case False
  then show ?thesis
    using assms by (auto simp add: skipIntro_def)
next
  case True
  show ?thesis
  proof (cases "observatoryStarted pg")
    case False
    then show ?thesis
      using assms True
      by (auto simp add: skipIntro_def Let_def revealMainSite_def ensureDotsAnimation_def
          page_inv_def)
  next
    case started: True
    then have c: "canvas (obs pg) \<noteq> None" and oc: "onComplete (obs pg)"
      using assms True by (auto simp add: page_inv_def split: if_splits)
    have k: "completions (skip (obs pg)) = Suc (completions (obs pg))"
      using c oc by (rule skip_completions)
    have "page_step (DomEvent ev) pg = completeFn (pg\<lparr>skipRequested := True, obs := skip (obs pg)\<rparr>)"
      using True started call_obs_one [of skip "pg\<lparr>skipRequested := True\<rparr>"] k
      by (simp add: skipIntro_def Let_def)
    then show ?thesis
      using assms True c oc k
      by (auto simp add: completeFn_def revealMainSite_def ensureDotsAnimation_def page_inv_def
          skip_fields skip_skipped)
  qed
qed

lemma page_inv_lines_done:
  assumes "page_inv pg"
  shows "page_inv (page_step LinesDone pg)"
proof (cases "landingSequenceFinished pg \<or> observatoryStarted pg")
  case True
  then show ?thesis
    using assms by (simp add: startObservatorySequence_def)
next
  case False
  then have cn: "canvas (obs pg) = None"
    using assms by (auto simp add: page_inv_def split: if_splits)
  have nsr: "\<not> skipRequested pg"
    using assms False cn by (auto simp add: page_inv_def)
  let ?pg1 = "pg\<lparr>observatoryStarted := True, skipHandlersAttached := True\<rparr>"
  have "page_step LinesDone pg = ?pg1\<lparr>obs := start (window_size pg) True (obs pg)\<rparr>"
    using False nsr call_obs_same [of "start (window_size pg) True" ?pg1]
    by (simp add: startObservatorySequence_def Let_def start_completions)
  then show ?thesis
    using assms False cn
    by (auto simp add: page_inv_def start_fields start_completions)
qed

lemma frame_nothing_pending: "pending st = [] \<Longrightarrow> frame ts st = st"
  by (simp add: frame_def)

lemma completions_pending_update [simp]: "completions (st\<lparr>pending := p\<rparr>) = completions st"
  by (simp add: completions_def)

lemma page_inv_frame:
  assumes "page_inv pg"
  shows "page_inv (page_step (AnimFrame ts) pg)"
proof (cases "pending (obs pg)")
  case Nil
  then have "frame ts (obs pg) = obs pg" by (rule frame_nothing_pending)
  then show ?thesis
    using assms call_obs_same [of "frame ts" pg] by simp
next
  case (Cons n ns)
  have c: "canvas (obs pg) \<noteq> None"
    using assms Cons by (auto simp add: page_inv_def split: if_splits)
  show ?thesis
  proof (cases "skipped (obs pg)")
    case True
    let ?st = "(obs pg)\<lparr>pending := ns\<rparr>"
    have fr: "frame ts (obs pg) = ?st"
      using Cons True by (simp add: frame_def render_skipped)
    have "page_step (AnimFrame ts) pg = pg\<lparr>obs := ?st\<rparr>"
      using fr call_obs_same [of "frame ts" pg] by simp
    then show ?thesis
      using assms True c by (auto simp add: page_inv_def split: if_splits)
  next
    case False
    then have nf: "\<not> landingSequenceFinished pg"
      using assms Cons c by (auto simp add: page_inv_def split: if_splits)
    then have ns: "ns = []" and oc: "onComplete (obs pg)"
      using assms Cons c by (auto simp add: page_inv_def split: if_splits)
    let ?st = "(obs pg)\<lparr>pending := []\<rparr>"
    have fr: "frame ts (obs pg) = render ts ?st"
      using Cons ns by (simp add: frame_def)
    have s': "\<not> skipped ?st" "canvas ?st \<noteq> None"
      using False c by simp_all
    show ?thesis
    proof (cases "ts - clock_start (startTime ?st) ts < DURATION")
      case True
      let ?rp = "run_phases phases (view_w ?st) (view_h ?st) (particles ?st)
                   (ts - clock_start (startTime ?st) ts)
                   (getZoom (ts - clock_start (startTime ?st) ts))"
      have nc: "filter (\<lambda>e. e = OnComplete) (fst ?rp) = []"
        by (rule run_phases_no_completion)
      show ?thesis
      proof (cases "snd ?rp")
        case None
        then have rp: "?rp = (fst ?rp, None)"
          by (metis prod.collapse)
        note r = render_running [OF s' True rp]
        have flds: "canvas (render ts ?st) = canvas (obs pg)"
          "onComplete (render ts ?st) = onComplete (obs pg)"
          "skipped (render ts ?st) = skipped (obs pg)"
          "pending (render ts ?st) = [next_frame_id (obs pg)]"
          "animFrameId (render ts ?st) = Some (next_frame_id (obs pg))"
          "next_frame_id (render ts ?st) = Suc (next_frame_id (obs pg))"
          "completions (render ts ?st) = completions (obs pg)"
          unfolding r using nc by (simp_all add: completions_def)
        have step: "page_step (AnimFrame ts) pg = pg\<lparr>obs := render ts ?st\<rparr>"
          using call_obs_same [of "frame ts" pg] flds(7) fr by simp
        show ?thesis
          unfolding step using assms nf c oc
          by (auto simp add: page_inv_def flds)
      next
        case (Some e)
        then have rp: "?rp = (fst ?rp, Some e)"
          by (metis prod.collapse)
        have ne: "e \<noteq> OnComplete"
          using run_phases_exn [OF Some] by auto
        note r = render_raising [OF s' True rp]
        have flds: "canvas (render ts ?st) = canvas (obs pg)"
          "onComplete (render ts ?st) = onComplete (obs pg)"
          "skipped (render ts ?st) = skipped (obs pg)"
          "pending (render ts ?st) = []"
          "next_frame_id (render ts ?st) = next_frame_id (obs pg)"
          "completions (render ts ?st) = completions (obs pg)"
          unfolding r using nc ne by (simp_all add: completions_def)
        have step: "page_step (AnimFrame ts) pg = pg\<lparr>obs := render ts ?st\<rparr>"
          using call_obs_same [of "frame ts" pg] flds(6) fr by simp
        show ?thesis
          unfolding step using assms nf c oc
          by (auto simp add: page_inv_def flds)
      qed
    next
      case late: False
      then have "ts - clock_start (startTime ?st) ts \<ge> DURATION" by simp
      note r = render_completing [OF s' this]
      have flds: "canvas (render ts ?st) = canvas (obs pg)"
        "onComplete (render ts ?st) = onComplete (obs pg)"
        "skipped (render ts ?st) = skipped (obs pg)"
        "pending (render ts ?st) = []"
        "next_frame_id (render ts ?st) = next_frame_id (obs pg)"
        "completions (render ts ?st) = Suc (completions (obs pg))"
        unfolding r using oc by (simp_all add: completions_def)
      have step: "page_step (AnimFrame ts) pg = completeFn (pg\<lparr>obs := render ts ?st\<rparr>)"
        using call_obs_one [of "frame ts" pg] flds(6) fr by simp
      show ?thesis
        unfolding step using assms nf c oc
        by (auto simp add: page_inv_def flds completeFn_def revealMainSite_def
            ensureDotsAnimation_def)
    qed
  qed
qed

lemma page_inv_resize:
  assumes "page_inv pg"
  shows "page_inv (page_step (WindowResize sz) pg)"
proof -
  let ?pg1 = "pg\<lparr>window_size := sz\<rparr>"
  have "page_step (WindowResize sz) pg = ?pg1\<lparr>obs := resize (set_canvas_size sz (obs pg))\<rparr>"
    using call_obs_same [of "\<lambda>st. resize (set_canvas_size sz st)" ?pg1]
    by (simp add: resize_completions)
  then show ?thesis
    using assms
    by (auto simp add: page_inv_def resize_fields resize_completions split: option.splits if_splits)
qed

lemma page_inv_step: "page_inv pg \<Longrightarrow> page_inv (page_step x pg)"
  by (cases x) (simp_all only: page_inv_event page_inv_lines_done page_inv_frame page_inv_resize)

lemma page_inv_run: "page_inv pg \<Longrightarrow> page_inv (page_run xs pg)"
  by (induction xs arbitrary: pg) (simp_all add: page_inv_step)

lemma page_inv_init: "page_inv (page_init sz)"
  by (simp add: page_inv_def page_init_def idle_def completions_def)

lemma page_inv_click:
  assumes "page_inv pg"
  shows "landingSequenceFinished (page_step (DomEvent Click) pg)"
proof (cases "landingSequenceFinished pg")
  case True
  then show ?thesis by (simp add: skipIntro_def)
next
  case False
  then have att: "skipHandlersAttached pg"
    using assms by (auto simp add: page_inv_def)
  show ?thesis
  proof (cases "observatoryStarted pg")
    case True
    then have c: "canvas (obs pg) \<noteq> None" and oc: "onComplete (obs pg)"
      using assms False by (auto simp add: page_inv_def split: if_splits)
    have k: "completions (skip (obs pg)) = Suc (completions (obs pg))"
      using c oc by (rule skip_completions)
    have "page_step (DomEvent Click) pg = completeFn (pg\<lparr>skipRequested := True, obs := skip (obs pg)\<rparr>)"
      using True False att call_obs_one [of skip "pg\<lparr>skipRequested := True\<rparr>"] k
      by (simp add: skipIntro_def Let_def)
    then show ?thesis
      by (simp add: completeFn_def revealMainSite_def ensureDotsAnimation_def)
  next
    case nst: False
    then show ?thesis
      using False att
      by (simp add: skipIntro_def Let_def revealMainSite_def ensureDotsAnimation_def)
  qed
qed

lemma completions_run_frames_skip:
  "completions (run (map Frame tss) (skip st)) = completions (skip st)"
  using run_frames_skipped [OF skip_skipped, of tss st] by (simp add: completions_def)

text \<open>
  Claim C1, amended. Every call of \<open>skip\<close> on a started controller with a completion
  function calls that function exactly once, and no frame calls it afterwards; the
  completing frame (elapsed at least the total duration, not skipped) calls it exactly once
  and requests no further frame. The controller has no guard of its own against a second
  call; the guard is on the page: \<open>skipIntro\<close> and the completion function both return at
  once when \<open>landingSequenceFinished\<close> is set. So for every sequence of input events,
  frames, resizes and the end of the orbit-lines animation, the completion function has been
  called at most once, exactly once precisely when the landing sequence is finished and the
  controller was started, the body of \<open>revealMainSite\<close> has run at most once, and one
  further click always leaves the landing sequence finished.
\<close>

theorem completion_once_under_page:
  "(\<forall>st tss. canvas st \<noteq> None \<and> onComplete st \<longrightarrow>
       completions (skip st) = completions st + 1
       \<and> completions (run (map Frame tss) (skip st)) = completions st + 1)
   \<and> (\<forall>st ts. \<not> skipped st \<and> canvas st \<noteq> None \<and> onComplete st
         \<and> ts - clock_start (startTime st) ts \<ge> DURATION \<longrightarrow>
       completions (render ts st) = completions st + 1
       \<and> pending (render ts st) = pending st)
   \<and> completions (obs (page_run xs (page_init sz))) \<le> 1
   \<and> (completions (obs (page_run xs (page_init sz))) = 1 \<longleftrightarrow>
        landingSequenceFinished (page_run xs (page_init sz))
        \<and> canvas (obs (page_run xs (page_init sz))) \<noteq> None)
   \<and> reveals (page_run xs (page_init sz)) \<le> 1
   \<and> landingSequenceFinished (page_step (DomEvent Click) (page_run xs (page_init sz)))"
proof -
  let ?pg = "page_run xs (page_init sz)"
  have inv: "page_inv ?pg"
    by (rule page_inv_run) (rule page_inv_init)
  have a: "\<forall>st tss. canvas st \<noteq> None \<and> onComplete st \<longrightarrow>
       completions (skip st) = completions st + 1
       \<and> completions (run (map Frame tss) (skip st)) = completions st + 1"
    by (simp add: completions_run_frames_skip skip_completions)
  have b: "\<forall>st ts. \<not> skipped st \<and> canvas st \<noteq> None \<and> onComplete st
         \<and> ts - clock_start (startTime st) ts \<ge> DURATION \<longrightarrow>
       completions (render ts st) = completions st + 1
       \<and> pending (render ts st) = pending st"
    by (simp add: render_completing completions_def)
  have c: "completions (obs ?pg) \<le> 1"
    using inv by (auto simp add: page_inv_def split: if_splits)
  have d: "completions (obs ?pg) = 1 \<longleftrightarrow>
        landingSequenceFinished ?pg \<and> canvas (obs ?pg) \<noteq> None"
    using inv by (auto simp add: page_inv_def split: if_splits)
  have e: "reveals ?pg \<le> 1"
    using inv by (auto simp add: page_inv_def split: if_splits)
  have f: "landingSequenceFinished (page_step (DomEvent Click) ?pg)"
    using inv by (rule page_inv_click)
  from a b c d e f show ?thesis by blast
qed

lemma running_example_completions: "completions running_example = 0"
  by (simp add: completions_def running_example_fields)

lemma page_example:
  "landingSequenceFinished
     (page_run [LinesDone, AnimFrame 1000, DomEvent Click, DomEvent Click] (page_init (800, 600)))"
  "canvas (obs (page_run [LinesDone, AnimFrame 1000, DomEvent Click, DomEvent Click]
     (page_init (800, 600)))) = Some (800, 600)"
  by (simp_all add: page_init_def startObservatorySequence_def call_obs_def skipIntro_def
      completeFn_def revealMainSite_def ensureDotsAnimation_def completions_def
      frame_def start_def skip_def render_def initParticles_def requestAnimationFrame_def
      cancel_pending_def cancelAnimationFrame_def idle_def Let_def emit_def clock_start_def
      DURATION_def first_frame_phases getZoom_def easeIn_def)

text \<open>
  Claim C1, amended, on the running controller and on a page that starts the observatory,
  runs one frame and receives two clicks.
\<close>

theorem completion_once_under_page_witness:
  "completions (skip running_example) = 1
   \<and> completions (run (map Frame [2000, 2016]) (skip running_example)) = 1
   \<and> completions (render 33000 running_example) = 1
   \<and> pending (render 33000 running_example) = [2]
   \<and> completions (obs (page_run [LinesDone, AnimFrame 1000, DomEvent Click, DomEvent Click]
         (page_init (800, 600)))) = 1
   \<and> reveals (page_run [LinesDone, AnimFrame 1000, DomEvent Click, DomEvent Click]
         (page_init (800, 600))) \<le> 1"
proof -
  note t = completion_once_under_page
    [of "[LinesDone, AnimFrame 1000, DomEvent Click, DomEvent Click]" "(800, 600)"]
  have a: "completions (skip running_example) = completions running_example + 1
       \<and> completions (run (map Frame [2000, 2016]) (skip running_example))
           = completions running_example + 1"
    using t [THEN conjunct1, rule_format, of running_example "[2000, 2016]"]
    by (simp add: running_example_fields)
  have b: "completions (render 33000 running_example) = completions running_example + 1
       \<and> pending (render 33000 running_example) = pending running_example"
    using t [THEN conjunct2, THEN conjunct1, rule_format, of running_example 33000]
    by (simp add: running_example_fields clock_start_def DURATION_def)
  have c: "completions (obs (page_run [LinesDone, AnimFrame 1000, DomEvent Click, DomEvent Click]
         (page_init (800, 600)))) = 1"
    using t page_example by simp
  have d: "reveals (page_run [LinesDone, AnimFrame 1000, DomEvent Click, DomEvent Click]
         (page_init (800, 600))) \<le> 1"
    using t by simp
  show ?thesis
    using a b c d by (simp add: running_example_completions running_example_fields)
qed

section \<open>Properties of the pools\<close>

lemma good_seed: "good (seededRng 42)"
  by (simp add: good_def seededRng_def)

lemma rng_call_good [simp]: "good s \<Longrightarrow> good (snd (rng_call s))"
  using live_step [of s] by (simp add: good_def live_def)

lemma rng_call_good_range:
  assumes "good s"
  shows "0 \<le> fst (rng_call s)" "fst (rng_call s) < 1"
  using assms rng_call_range [of s] by (simp_all add: good_def)

lemma push_each_length: "length (fst (push_each mk idxs s)) = length idxs"
  by (induction idxs arbitrary: s) (simp_all add: split_beta Let_def)

lemma push_each_good:
  assumes "\<And>i s. good s \<Longrightarrow> good (snd (mk i s))" and "good s"
  shows "good (snd (push_each mk idxs s))"
  using assms(2)
  by (induction idxs arbitrary: s) (simp_all add: split_beta Let_def assms(1))

lemma push_each_all:
  assumes "\<And>i s. good s \<Longrightarrow> good (snd (mk i s))"
    and "\<And>i s. good s \<Longrightarrow> P (fst (mk i s))" and "good s"
  shows "\<forall>x \<in> set (fst (push_each mk idxs s)). P x"
  using assms(3)
proof (induction idxs arbitrary: s)
  case Nil
  then show ?case by simp
next
  case (Cons i idxs)
  have "P (fst (mk i s))"
    using Cons.prems by (rule assms(2))
  moreover have "\<forall>x \<in> set (fst (push_each mk idxs (snd (mk i s)))). P x"
    using Cons.prems by (intro Cons.IH assms(1))
  ultimately show ?case
    by (simp add: split_beta Let_def)
qed

lemma mk_good:
  "good s \<Longrightarrow> good (snd (mk_bgStar i s))"
  "good s \<Longrightarrow> good (snd (mk_dust i s))"
  "good s \<Longrightarrow> good (snd (mk_lensRing i s))"
  "good s \<Longrightarrow> good (snd (mk_star i s))"
  "good s \<Longrightarrow> good (snd (mk_node i s))"
  "good s \<Longrightarrow> good (snd (mk_candle i s))"
  by (simp_all add: mk_bgStar_def mk_dust_def mk_lensRing_def mk_star_def mk_node_def
      mk_candle_def split_beta Let_def)

lemma edges_inner_good_aux:
  "good s \<Longrightarrow> good (snd (edges_inner ns i js (es, s)))"
proof (induction js arbitrary: es s)
  case Nil
  then show ?case by simp
next
  case (Cons j js)
  have g1: "good (snd (rng_call s))" using Cons.prems by simp
  then have g2: "good (snd (rng_call (snd (rng_call s))))" by simp
  show ?case
    using Cons.IH [OF Cons.prems] Cons.IH [OF g1] Cons.IH [OF g2]
    by (simp add: split_beta Let_def)
qed

lemma edges_inner_good: "good (snd acc) \<Longrightarrow> good (snd (edges_inner ns i js acc))"
  using edges_inner_good_aux [of "snd acc" ns i js "fst acc"] by simp

lemma edges_outer_good: "good (snd acc) \<Longrightarrow> good (snd (edges_outer ns idxs acc))"
  by (induction ns idxs acc rule: edges_outer.induct) (simp_all add: edges_inner_good)

lemma mk_candle_invariant:
  assumes "good s"
  shows "c_high (fst (mk_candle i s)) \<ge> max (c_open (fst (mk_candle i s))) (c_close (fst (mk_candle i s)))
       \<and> c_low (fst (mk_candle i s)) \<le> min (c_open (fst (mk_candle i s))) (c_close (fst (mk_candle i s)))"
proof -
  let ?s1 = "snd (rng_call s)"
  let ?s2 = "snd (rng_call ?s1)"
  let ?s3 = "snd (rng_call ?s2)"
  have g: "good ?s2" "good ?s3" using assms by simp_all
  have "0 \<le> fst (rng_call ?s2) * 0.08" "0 \<le> fst (rng_call ?s3) * 0.08"
    using g by (simp_all add: rng_call_good_range)
  then show ?thesis
    by (simp add: mk_candle_def split_beta Let_def del: mult_nonneg_nonneg) linarith
qed

lemma candles_build_pools:
  "candles build_pools = fst (push_each mk_candle [0 ..< 80] candle_seed)"
  by (simp add: build_pools_def candle_seed_def node_pool_def star_end_def split_beta Let_def
      push_each_length)

lemma star_end_good: "good star_end"
  unfolding star_end_def
  by (intro push_each_good mk_good good_seed)

lemma candle_seed_good: "good candle_seed"
  unfolding candle_seed_def node_pool_def
  by (intro edges_outer_good) (simp add: push_each_good mk_good star_end_good)

lemma clampPrice_range: "0.1 \<le> clampPrice v \<and> clampPrice v \<le> 0.9"
  by (simp add: clampPrice_def)

lemma cosmos_candles_members:
  "d \<in> set (cosmos_candles cs t elapsed) \<Longrightarrow>
     \<exists>p side i. d = jitter elapsed p side i (cs ! i)"
  by (auto simp add: cosmos_candles_def Let_def split: if_splits)

text \<open>
  Claim C4, amended. Every candlestick of the pool built by \<open>initParticles\<close> has
  \<open>high \<ge> max (open, close)\<close> and \<open>low \<le> min (open, close)\<close>. For every candle the cosmos
  renderer draws, at every frame, each of the four jittered prices is clamped into
  \<open>[0.1, 0.9]\<close> on its own. Nothing is said about the order of the jittered prices.
\<close>

theorem candle_invariant_init_and_clamp:
  "(\<forall>c \<in> set (candles build_pools).
       c_high c \<ge> max (c_open c) (c_close c) \<and> c_low c \<le> min (c_open c) (c_close c))
   \<and> (\<forall>d \<in> set (cosmos_candles cs t elapsed).
       0.1 \<le> d_open d \<and> d_open d \<le> 0.9 \<and> 0.1 \<le> d_close d \<and> d_close d \<le> 0.9
       \<and> 0.1 \<le> d_high d \<and> d_high d \<le> 0.9 \<and> 0.1 \<le> d_low d \<and> d_low d \<le> 0.9)"
proof
  show "\<forall>c \<in> set (candles build_pools).
       c_high c \<ge> max (c_open c) (c_close c) \<and> c_low c \<le> min (c_open c) (c_close c)"
    unfolding candles_build_pools
    by (rule push_each_all [where P = "\<lambda>c. c_high c \<ge> max (c_open c) (c_close c)
          \<and> c_low c \<le> min (c_open c) (c_close c)"])
       (simp_all only: mk_good mk_candle_invariant candle_seed_good)
  show "\<forall>d \<in> set (cosmos_candles cs t elapsed).
       0.1 \<le> d_open d \<and> d_open d \<le> 0.9 \<and> 0.1 \<le> d_close d \<and> d_close d \<le> 0.9
       \<and> 0.1 \<le> d_high d \<and> d_high d \<le> 0.9 \<and> 0.1 \<le> d_low d \<and> d_low d \<le> 0.9"
  proof
    fix d
    assume "d \<in> set (cosmos_candles cs t elapsed)"
    then obtain p side i where "d = jitter elapsed p side i (cs ! i)"
      using cosmos_candles_members by blast
    then show "0.1 \<le> d_open d \<and> d_open d \<le> 0.9 \<and> 0.1 \<le> d_close d \<and> d_close d \<le> 0.9
       \<and> 0.1 \<le> d_high d \<and> d_high d \<le> 0.9 \<and> 0.1 \<le> d_low d \<and> d_low d \<le> 0.9"
      using clampPrice_range by (simp add: jitter_def Let_def)
  qed
qed

section \<open>Counts\<close>



lemma build_pools_counts:
  "length (bgStars build_pools) = 180" "length (dust build_pools) = 300"
  "length (lensRings build_pools) = 12" "length (stars build_pools) = 800"
  "length (neural_nodes build_pools) = 55" "length (candles build_pools) = 80"
  "length (comets build_pools) = 12" "length (orderCols build_pools) = 45"
  by (simp_all add: build_pools_def Let_def split_beta push_each_length)




lemma first_bgStar: "bg_x (hd (bgStars build_pools)) = fst (rng_call (seededRng 42))"
proof -
  have "bgStars build_pools = fst (push_each mk_bgStar [0 ..< 180] (seededRng 42))"
    by (simp add: build_pools_def split_beta Let_def)
  also have "[0 ..< 180] = 0 # [1 ..< 180]"
    by (simp add: upt_conv_Cons)
  finally show ?thesis
    by (simp add: split_beta Let_def mk_bgStar_def)
qed

text \<open>
  Claim C10. Whatever the canvas sizes, completion functions and earlier states, two calls
  of \<open>start\<close> build the same pools; \<open>resize\<close> after a change of the canvas size rebuilds
  exactly the pools \<open>start\<close> built; the element counts are fixed; and the first value of the
  first pool is the first output of the generator seeded with 42.
\<close>

theorem pools_independent_of_viewport:
  "particles (start sz1 cb1 st1) = particles (start sz2 cb2 st2)
   \<and> particles (resize (set_canvas_size sz3 (start sz1 cb1 st1))) = particles (start sz1 cb1 st1)
   \<and> particles (initParticles st1) = particles (initParticles st2)
   \<and> pool_counts (resize (set_canvas_size sz3 (start sz1 cb1 st1)))
       = [180, 300, 12, 800, 55, length (neural_edges build_pools), 80, 12, 45]
   \<and> (case particles (resize (set_canvas_size sz3 (start sz1 cb1 st1))) of
        None \<Rightarrow> False
      | Some p \<Rightarrow> bg_x (hd (bgStars p)) = fst (rng_call (seededRng 42)))"
  by (simp add: start_fields resize_def set_canvas_size_def initParticles_def pool_counts_def
      build_pools_counts first_bgStar split: prod.split)

lemma cosmos_candles_length_mid: "length (cosmos_candles cs (5 / 9) 28000) = 2 * length cs"
proof -
  have two: "[0 ..< 2] = [0, 1]"
    by (simp add: upt_conv_Cons)
  have s: "smoothstep 0 0.05 (5 / 9) = 1" "smoothstep 0.92 1 (5 / 9) = 0"
    "smoothstep 0.03 0.2 (5 / 9) = 1"
    by (simp_all add: smoothstep_def clamp_def Let_def)
  show ?thesis
    unfolding cosmos_candles_def s Let_def two by simp
qed

text \<open>Claim C4, amended, for candle 55 of the pool, at pool initialisation and at the frame 28000 ms into the sequence.\<close>

theorem candle_invariant_init_and_clamp_witness:
  "candles build_pools ! 55 \<in> set (candles build_pools)
   \<and> c_high (candles build_pools ! 55)
       \<ge> max (c_open (candles build_pools ! 55)) (c_close (candles build_pools ! 55))
   \<and> c_low (candles build_pools ! 55)
       \<le> min (c_open (candles build_pools ! 55)) (c_close (candles build_pools ! 55))
   \<and> cosmos_candles (candles build_pools) (5 / 9) 28000 ! 55
       \<in> set (cosmos_candles (candles build_pools) (5 / 9) 28000)
   \<and> 0.1 \<le> d_low (cosmos_candles (candles build_pools) (5 / 9) 28000 ! 55)
   \<and> d_low (cosmos_candles (candles build_pools) (5 / 9) 28000 ! 55) \<le> 0.9"
proof -
  have m1: "candles build_pools ! 55 \<in> set (candles build_pools)"
    by (rule nth_mem) (simp add: build_pools_counts)
  have m2: "cosmos_candles (candles build_pools) (5 / 9) 28000 ! 55
       \<in> set (cosmos_candles (candles build_pools) (5 / 9) 28000)"
    by (rule nth_mem) (simp add: cosmos_candles_length_mid build_pools_counts)
  show ?thesis
    using candle_invariant_init_and_clamp [of "candles build_pools" "5 / 9" 28000] m1 m2
    by blast
qed

text \<open>Claim C10 for canvases of 800 by 600, 1920 by 1080 and 1024 by 768.\<close>

theorem pools_independent_of_viewport_witness:
  "particles (start (800, 600) True idle) = particles (start (1920, 1080) False running_example)
   \<and> particles (resize (set_canvas_size (1024, 768) (start (800, 600) True idle)))
       = particles (start (800, 600) True idle)"
  using pools_independent_of_viewport
    [of "(800, 600)" True idle "(1920, 1080)" False running_example "(1024, 768)"]
  by simp

section \<open>The candle pool, evaluated\<close>

text \<open>
  The state after \<open>n\<close> calls from a state \<open>s\<close> below the modulus is
  \<open>(s * 16807 ^ n) mod 2147483647\<close>. The powers needed are computed by squaring and
  multiplying, reduced at every step.
\<close>

lemma pw_sq: "pw k = v \<Longrightarrow> pw (2 * k) = (v * v) mod 2147483647"
proof -
  assume a: "pw k = v"
  have "pw (2 * k) = (16807 ^ k * 16807 ^ k) mod 2147483647"
    unfolding pw_def by (simp only: mult_2 power_add)
  also have "\<dots> = (pw k * pw k) mod 2147483647"
    unfolding pw_def by (simp only: mod_mult_eq)
  finally show ?thesis
    by (simp only: a)
qed

lemma pw_mul: "pw k = v \<Longrightarrow> pw (Suc k) = (16807 * v) mod 2147483647"
proof -
  assume a: "pw k = v"
  have "pw (Suc k) = (16807 * 16807 ^ k) mod 2147483647"
    unfolding pw_def by (simp only: power_Suc)
  also have "\<dots> = (16807 * pw k) mod 2147483647"
    unfolding pw_def by (simp only: mod_mult_right_eq)
  finally show ?thesis
    by (simp only: a)
qed

lemma pw_0: "pw 0 = 1"
  by (simp add: pw_def)

lemma adv_mod: "0 \<le> s \<Longrightarrow> adv s = (s * 16807) mod 2147483647"
  by (simp add: adv_def rng_call_snd_mod)

lemma adv_funpow:
  assumes "0 \<le> s" "s < 2147483647"
  shows "(adv ^^ n) s = (s * pw n) mod 2147483647"
proof (induction n)
  case 0
  then show ?case using assms by (simp add: pw_0)
next
  case (Suc n)
  have nn: "0 \<le> (s * pw n) mod 2147483647" by simp
  have "(adv ^^ Suc n) s = adv ((s * pw n) mod 2147483647)"
    by (simp add: Suc.IH)
  also have "\<dots> = ((s * pw n) mod 2147483647 * 16807) mod 2147483647"
    using nn by (rule adv_mod)
  also have "\<dots> = (s * pw n * 16807) mod 2147483647"
    by (rule mod_mult_left_eq)
  also have "\<dots> = (s * (16807 * pw n)) mod 2147483647"
    by (simp only: mult.assoc mult.commute [of "pw n" 16807])
  also have "\<dots> = (s * ((16807 * pw n) mod 2147483647)) mod 2147483647"
    by (simp only: mod_mult_right_eq)
  also have "(16807 * pw n) mod 2147483647 = pw (Suc n)"
    using pw_mul [of n "pw n"] by simp
  finally show ?case .
qed

text \<open>
  The four pools before the nodes draw \<open>180 * 6 + 300 * 7 + 12 * 3 + 800 * 10 = 11216\<close>
  values.
\<close>

lemma pw_11216: "pw 11216 = 1148176147"
proof -
  have p1: "pw 1 = 16807" by (simp add: pw_def)
  have p2: "pw 2 = 282475249" using pw_sq [OF p1] by simp
  have p4: "pw 4 = 984943658" using pw_sq [OF p2] by simp
  have p5: "pw 5 = 1144108930" using pw_mul [OF p4] by simp
  have p10: "pw 10 = 2007237709" using pw_sq [OF p5] by simp
  have p20: "pw 20 = 143542612" using pw_sq [OF p10] by simp
  have p21: "pw 21 = 896544303" using pw_mul [OF p20] by simp
  have p42: "pw 42 = 2110010672" using pw_sq [OF p21] by simp
  have p43: "pw 43 = 1551901393" using pw_mul [OF p42] by simp
  have p86: "pw 86 = 1351934195" using pw_sq [OF p43] by simp
  have p87: "pw 87 = 1581030105" using pw_mul [OF p86] by simp
  have p174: "pw 174 = 348318738" using pw_sq [OF p87] by simp
  have p175: "pw 175 = 152607844" using pw_mul [OF p174] by simp
  have p350: "pw 350 = 988774857" using pw_sq [OF p175] by simp
  have p700: "pw 700 = 1178402198" using pw_sq [OF p350] by simp
  have p701: "pw 701 = 1311549152" using pw_mul [OF p700] by simp
  have p1402: "pw 1402 = 2038808308" using pw_sq [OF p701] by simp
  have p2804: "pw 2804 = 324436310" using pw_sq [OF p1402] by simp
  have p5608: "pw 5608 = 1846260159" using pw_sq [OF p2804] by simp
  have p11216: "pw 11216 = 1148176147" using pw_sq [OF p5608] by simp
  show ?thesis by (rule p11216)
qed

lemma funpow_app_add: "(f ^^ a) ((f ^^ b) x) = (f ^^ (a + b)) x"
  by (simp add: funpow_add)

lemma push_each_adv:
  assumes "\<And>i s. snd (mk i s) = (adv ^^ k) s"
  shows "snd (push_each mk idxs s) = (adv ^^ (k * length idxs)) s"
proof (induction idxs arbitrary: s)
  case Nil
  then show ?case by simp
next
  case (Cons i idxs)
  have "snd (push_each mk (i # idxs) s) = snd (push_each mk idxs (snd (mk i s)))"
    by (simp add: split_beta Let_def)
  also have "\<dots> = (adv ^^ (k * length idxs)) ((adv ^^ k) s)"
    by (simp add: Cons.IH assms)
  also have "\<dots> = (adv ^^ (k * length (i # idxs))) s"
    by (simp add: funpow_app_add add.commute)
  finally show ?case .
qed

lemma funpow_unroll:
  "(f ^^ 3) x = f (f (f x))"
  "(f ^^ 4) x = f (f (f (f x)))"
  "(f ^^ 5) x = f (f (f (f (f x))))"
  "(f ^^ 6) x = f (f (f (f (f (f x)))))"
  "(f ^^ 7) x = f (f (f (f (f (f (f x))))))"
  "(f ^^ 10) x = f (f (f (f (f (f (f (f (f (f x)))))))))"
  by (simp_all add: eval_nat_numeral funpow_swap1)

lemma mk_adv:
  "snd (mk_bgStar i s) = (adv ^^ 6) s"
  "snd (mk_dust i s) = (adv ^^ 7) s"
  "snd (mk_lensRing i s) = (adv ^^ 3) s"
  "snd (mk_star i s) = (adv ^^ 10) s"
  "snd (mk_node i s) = (adv ^^ 5) s"
  "snd (mk_candle i s) = (adv ^^ 4) s"
  unfolding funpow_unroll adv_def
  by (simp_all add: mk_bgStar_def mk_dust_def mk_lensRing_def mk_star_def mk_node_def
      mk_candle_def split_beta Let_def)

lemma star_end_funpow: "star_end = (adv ^^ 11216) 42"
proof -
  have "star_end = (adv ^^ (10 * 800)) ((adv ^^ (3 * 12)) ((adv ^^ (7 * 300)) ((adv ^^ (6 * 180)) 42)))"
    unfolding star_end_def seededRng_def
    by (simp only: push_each_adv [where mk = mk_bgStar, OF mk_adv(1)]
        push_each_adv [where mk = mk_dust, OF mk_adv(2)]
        push_each_adv [where mk = mk_lensRing, OF mk_adv(3)]
        push_each_adv [where mk = mk_star, OF mk_adv(4)] length_upt diff_zero)
  also have "\<dots> = (adv ^^ 11216) 42"
    by (simp only: funpow_app_add) simp
  finally show ?thesis .
qed

lemma star_end_value: "star_end = 978757940"
  by (simp add: star_end_funpow adv_funpow pw_11216)

text \<open>
  The edge loops draw a value only for a pair of nodes that passes the distance test, so the
  state they leave depends on the node coordinates. It is computed on the integer model of
  the loops.
\<close>

lemma adv_code [code]: "adv s = js_rem (s * 16807) 2147483647"
  by (simp add: adv_def rng_call_def Let_def)

lemma edge_loop_state: "outer_st node_states 661819212 = 36803352"
  by code_simp

lemma mk_node_coords:
  "nd_x (fst (mk_node i s)) = coord (adv s)" "nd_y (fst (mk_node i s)) = coord (adv (adv s))"
  by (simp_all add: mk_node_def split_beta Let_def adv_def coord_def rng_call_fst)

lemma nodes_coords:
  "map (\<lambda>n. (nd_x n, nd_y n)) (fst (push_each mk_node idxs s))
     = map (\<lambda>(a, b). (coord a, coord b)) (node_sts (length idxs) s)"
proof (induction idxs arbitrary: s)
  case Nil
  then show ?case by simp
next
  case (Cons i idxs)
  have "snd (mk_node i s) = adv (adv (adv (adv (adv s))))"
    by (simp add: mk_adv funpow_unroll)
  then show ?case
    by (simp add: split_beta Let_def Cons.IH mk_node_coords)
qed

lemma node_sts_55: "node_sts 55 978757940 = node_states"
  by code_simp

lemma pw_275: "pw 275 = 1486421564"
proof -
  have p1: "pw 1 = 16807" by (simp add: pw_def)
  have p2: "pw 2 = 282475249" using pw_sq [OF p1] by simp
  have p4: "pw 4 = 984943658" using pw_sq [OF p2] by simp
  have p8: "pw 8 = 1457850878" using pw_sq [OF p4] by simp
  have p16: "pw 16 = 1137522503" using pw_sq [OF p8] by simp
  have p17: "pw 17 = 1441282327" using pw_mul [OF p16] by simp
  have p34: "pw 34 = 101929267" using pw_sq [OF p17] by simp
  have p68: "pw 68 = 194847408" using pw_sq [OF p34] by simp
  have p136: "pw 136 = 832633821" using pw_sq [OF p68] by simp
  have p137: "pw 137 = 1073185695" using pw_mul [OF p136] by simp
  have p274: "pw 274 = 578134256" using pw_sq [OF p137] by simp
  have p275: "pw 275 = 1486421564" using pw_mul [OF p274] by simp
  show ?thesis by (rule p275)
qed

text \<open>
  The integer model agrees with the loops of the source: the distance test and the keep test
  are the same conditions, multiplied out.
\<close>

lemma sqrt_less_iff_sq:
  fixes x y :: real
  assumes "0 < y"
  shows "sqrt x < y \<longleftrightarrow> x < y * y"
proof -
  have "sqrt (y * y) = y" using assms by simp
  then show ?thesis
    by (metis real_sqrt_less_iff)
qed

lemma near_iff:
  "sqrt ((coord a - coord c) * (coord a - coord c) + (coord b - coord d) * (coord b - coord d)) < 0.26
     \<longleftrightarrow> near (a, b) (c, d)"
proof -
  let ?D = "(a - c) * (a - c) + (b - d) * (b - d)"
  define Dr where "Dr = real_of_int ?D"
  have ca: "coord a - coord c = real_of_int (a - c) * (95 / (100 * 2147483646))"
    and cb: "coord b - coord d = real_of_int (b - d) * (95 / (100 * 2147483646))"
    by (simp_all add: coord_def field_simps)
  have e: "(coord a - coord c) * (coord a - coord c) + (coord b - coord d) * (coord b - coord d)
     = 9025 * Dr / (10000 * (2147483646 * 2147483646))"
    unfolding ca cb Dr_def by (simp add: field_simps)
  have "sqrt ((coord a - coord c) * (coord a - coord c) + (coord b - coord d) * (coord b - coord d)) < 0.26
     \<longleftrightarrow> 9025 * Dr / (10000 * (2147483646 * 2147483646)) < 0.26 * 0.26"
    unfolding e by (rule sqrt_less_iff_sq) simp
  also have "\<dots> \<longleftrightarrow> 9025 * Dr < 676 * (2147483646 * 2147483646)"
    by (simp add: pos_divide_less_eq)
  also have "\<dots> \<longleftrightarrow> real_of_int (9025 * ?D) < real_of_int (676 * (2147483646 * 2147483646))"
    by (simp add: Dr_def)
  also have "\<dots> \<longleftrightarrow> 9025 * ?D < 676 * (2147483646 * 2147483646)"
    by (rule of_int_less_iff)
  finally show ?thesis
    by (simp add: near_def)
qed

lemma kept_iff: "fst (rng_call s) > 0.3 \<longleftrightarrow> 6442450938 < 10 * (adv s - 1)"
proof -
  have "fst (rng_call s) > 0.3 \<longleftrightarrow> real_of_int 6442450938 < real_of_int (10 * (adv s - 1))"
    by (simp add: rng_call_fst adv_def field_simps)
  also have "\<dots> \<longleftrightarrow> 6442450938 < 10 * (adv s - 1)"
    by (rule of_int_less_iff)
  finally show ?thesis .
qed

lemma coords_nth:
  assumes cs: "map (\<lambda>n. (nd_x n, nd_y n)) ns = map (\<lambda>(a, b). (coord a, coord b)) cs"
    and k: "k < length ns"
  shows "nd_x (ns ! k) = coord (fst (cs ! k))" "nd_y (ns ! k) = coord (snd (cs ! k))"
proof -
  have len: "length cs = length ns"
    using cs by (metis length_map)
  have "map (\<lambda>n. (nd_x n, nd_y n)) ns ! k = map (\<lambda>(a, b). (coord a, coord b)) cs ! k"
    by (simp only: cs)
  then show "nd_x (ns ! k) = coord (fst (cs ! k))" "nd_y (ns ! k) = coord (snd (cs ! k))"
    using k len by (simp_all add: split_beta)
qed

lemma edges_inner_state:
  assumes cs: "map (\<lambda>n. (nd_x n, nd_y n)) ns = map (\<lambda>(a, b). (coord a, coord b)) cs"
    and i: "i < length ns" and jl: "j \<le> length ns"
  shows "snd (edges_inner ns i [j ..< length ns] (es, s)) = inner_st (cs ! i) (drop j cs) s"
proof -
  have len: "length cs = length ns"
    using cs by (metis length_map)
  from jl show ?thesis
  proof (induction "length ns - j" arbitrary: j es s)
    case 0
    then show ?case using len by simp
  next
    case (Suc k)
    have j: "j < length ns" using Suc.hyps(2) by simp
    have up: "[j ..< length ns] = j # [Suc j ..< length ns]"
      using j by (rule upt_conv_Cons)
    have dr: "drop j cs = cs ! j # drop (Suc j) cs"
      using j len by (simp add: Cons_nth_drop_Suc)
    have k: "k = length ns - Suc j" using Suc.hyps(2) by simp
    have sj: "Suc j \<le> length ns" using j by simp
    note ih = Suc.hyps(1) [OF k sj]
    have nr: "sqrt ((nd_x (ns ! i) - nd_x (ns ! j)) * (nd_x (ns ! i) - nd_x (ns ! j))
          + (nd_y (ns ! i) - nd_y (ns ! j)) * (nd_y (ns ! i) - nd_y (ns ! j))) < 0.26
        \<longleftrightarrow> near (cs ! i) (cs ! j)"
      using near_iff [of "fst (cs ! i)" "fst (cs ! j)" "snd (cs ! i)" "snd (cs ! j)"]
      by (simp add: coords_nth [OF cs i] coords_nth [OF cs j])
    show ?case
      unfolding up dr edges_inner.simps inner_st.simps Let_def split_beta nr kept_iff
      by (simp add: ih adv_def)
  qed
qed

lemma edges_outer_state:
  assumes cs: "map (\<lambda>n. (nd_x n, nd_y n)) ns = map (\<lambda>(a, b). (coord a, coord b)) cs"
    and il: "i \<le> length ns"
  shows "snd (edges_outer ns [i ..< length ns] (es, s)) = outer_st (drop i cs) s"
proof -
  have len: "length cs = length ns"
    using cs by (metis length_map)
  from il show ?thesis
  proof (induction "length ns - i" arbitrary: i es s)
    case 0
    then show ?case using len by simp
  next
    case (Suc k)
    have i: "i < length ns" using Suc.hyps(2) by simp
    have up: "[i ..< length ns] = i # [Suc i ..< length ns]"
      using i by (rule upt_conv_Cons)
    have dr: "drop i cs = cs ! i # drop (Suc i) cs"
      using i len by (simp add: Cons_nth_drop_Suc)
    have k: "k = length ns - Suc i" using Suc.hyps(2) by simp
    have si: "Suc i \<le> length ns" using i by simp
    obtain es' s' where r: "edges_inner ns i [Suc i ..< length ns] (es, s) = (es', s')"
      by (cases "edges_inner ns i [Suc i ..< length ns] (es, s)") simp
    have "s' = inner_st (cs ! i) (drop (Suc i) cs) s"
      using edges_inner_state [OF cs i si, of es s] r by simp
    then show ?case
      unfolding up dr using Suc.hyps(1) [OF k si, of es' s'] r by simp
  qed
qed

lemma node_pool_coords:
  "map (\<lambda>n. (nd_x n, nd_y n)) (fst node_pool) = map (\<lambda>(a, b). (coord a, coord b)) node_states"
  unfolding node_pool_def star_end_value nodes_coords
  by (simp only: length_upt diff_zero node_sts_55)

lemma node_pool_length: "length (fst node_pool) = 55"
  by (simp add: node_pool_def push_each_length)

lemma node_pool_state: "snd node_pool = 661819212"
proof -
  have "snd node_pool = (adv ^^ (5 * 55)) 978757940"
    unfolding node_pool_def star_end_value
    by (simp only: push_each_adv [where mk = mk_node, OF mk_adv(5)] length_upt diff_zero)
  then show ?thesis
    by (simp add: adv_funpow pw_275)
qed

section \<open>Bounds on sine and cosine at one frame\<close>

text \<open>
  The frame used below has \<open>elapsed = 28000\<close>; for candle 55 on side 0 the arguments of
  the sine and the cosine in \<open>drawCosmos\<close> are \<open>96.1\<close> and \<open>34.6\<close>. With
  \<open>3.1 < pi < 3.2\<close>, obtained from the Maclaurin expansion of the cosine at \<open>1.55\<close> and
  \<open>1.6\<close>, the first lies in \<open>[30 pi, 31 pi]\<close>, where the sine is not negative, and the
  second within \<open>pi / 3\<close> of \<open>11 pi\<close>, where the cosine is at most \<open>- 1 / 2\<close>.
\<close>

lemma sum_upto8:
  fixes f :: "nat \<Rightarrow> real"
  shows "(\<Sum>m<8. f m) = f 0 + f 1 + f 2 + f 3 + f 4 + f 5 + f 6 + f 7"
  by (simp add: eval_nat_numeral)

lemma cos_coeff_values:
  "cos_coeff 0 = 1" "cos_coeff 1 = 0" "cos_coeff 2 = - 1 / 2" "cos_coeff 3 = 0"
  "cos_coeff 4 = 1 / 24" "cos_coeff 5 = 0" "cos_coeff 6 = - 1 / 720" "cos_coeff 7 = 0"
  "cos_coeff (Suc 0) = 0"
  by (simp_all add: cos_coeff_def fact_numeral)

lemma cos_sum8:
  fixes x :: real
  shows "(\<Sum>m<8. cos_coeff m * x ^ m) = 1 - x^2 / 2 + x^4 / 24 - x^6 / 720"
  by (simp add: sum_upto8 cos_coeff_values)

lemma cos_taylor8:
  fixes x :: real
  shows "\<bar>cos x - (1 - x^2 / 2 + x^4 / 24 - x^6 / 720)\<bar> \<le> x^8 / 40320"
proof -
  obtain t where t: "cos x = (\<Sum>m<8. cos_coeff m * x ^ m) + (cos (t + 1/2 * real 8 * pi) / fact 8) * x ^ 8"
    using Maclaurin_cos_expansion [of x 8] by blast
  have f8: "fact 8 = (40320::real)"
    by (simp add: fact_numeral)
  have k: "0 \<le> x ^ 8 / 40320"
    by simp
  have eq: "cos x - (1 - x^2 / 2 + x^4 / 24 - x^6 / 720) = cos (t + 1/2 * real 8 * pi) * (x ^ 8 / 40320)"
    unfolding t cos_sum8 f8 by simp
  have "\<bar>cos x - (1 - x^2 / 2 + x^4 / 24 - x^6 / 720)\<bar>
      = \<bar>cos (t + 1/2 * real 8 * pi)\<bar> * \<bar>x ^ 8 / 40320\<bar>"
    unfolding eq by (rule abs_mult)
  also have "\<bar>x ^ 8 / 40320\<bar> = x ^ 8 / 40320"
    using k by (rule abs_of_nonneg)
  also have "\<bar>cos (t + 1/2 * real 8 * pi)\<bar> * (x ^ 8 / 40320) \<le> 1 * (x ^ 8 / 40320)"
    using k by (intro mult_right_mono abs_cos_le_one)
  finally show ?thesis by simp
qed

lemma cos_155_pos: "0 < cos (155 / 100 :: real)"
proof -
  let ?x = "155 / 100 :: real"
  have "1 - ?x^2 / 2 + ?x^4 / 24 - ?x^6 / 720 - ?x^8 / 40320 \<le> cos ?x"
    using cos_taylor8 [of ?x] by (simp only: abs_le_iff) linarith
  moreover have "0 < 1 - ?x^2 / 2 + ?x^4 / 24 - ?x^6 / 720 - ?x^8 / 40320"
    by (simp add: power_divide)
  ultimately show ?thesis by linarith
qed

lemma cos_16_neg: "cos (16 / 10 :: real) < 0"
proof -
  let ?x = "16 / 10 :: real"
  have "cos ?x \<le> 1 - ?x^2 / 2 + ?x^4 / 24 - ?x^6 / 720 + ?x^8 / 40320"
    using cos_taylor8 [of ?x] by (simp only: abs_le_iff) linarith
  moreover have "1 - ?x^2 / 2 + ?x^4 / 24 - ?x^6 / 720 + ?x^8 / 40320 < 0"
    by (simp add: power_divide)
  ultimately show ?thesis by linarith
qed

lemma pi_bounds: "31 / 10 < pi" "pi < 32 / 10"
proof -
  have a: "0 \<le> (155/100::real)" "(155/100::real) \<le> pi" "0 \<le> pi / 2" "pi / 2 \<le> pi"
    using pi_ge_two by simp_all
  have "cos (pi / 2) < cos (155/100)"
    using cos_155_pos by simp
  then have "155/100 < pi / 2"
    using cos_mono_less_eq [OF a(3,4) a(1,2)] by simp
  then show "31 / 10 < pi" by simp
  have b: "0 \<le> (16/10::real)" "(16/10::real) \<le> pi"
    using pi_ge_two by simp_all
  have "cos (16/10) < cos (pi / 2)"
    using cos_16_neg by simp
  then have "pi / 2 < 16/10"
    using cos_mono_less_eq [OF b a(3,4)] by simp
  then show "pi < 32 / 10" by simp
qed

lemma sin_frame: "0 \<le> sin (961 / 10 :: real)"
proof -
  let ?z = "961/10 - 30 * pi :: real"
  have "sin (961/10) = sin (?z + 2 * real 15 * pi)"
    by (simp add: algebra_simps)
  also have "\<dots> = sin ?z"
    unfolding sin_add [of ?z] sin_2npi cos_2npi by simp
  finally have e: "sin (961/10) = sin ?z" .
  have "0 \<le> ?z" "?z \<le> pi"
    using pi_bounds by simp_all
  then show ?thesis
    unfolding e by (rule sin_ge_zero)
qed

lemma cos_frame: "cos (173 / 5 :: real) \<le> - 1 / 2"
proof -
  let ?u = "173/5 - 11 * pi :: real"
  have u: "- (pi / 3) \<le> ?u" "?u \<le> pi / 3"
    using pi_bounds by simp_all
  have "cos (173/5) = cos (?u + real 11 * pi)"
    by (simp add: algebra_simps)
  also have "\<dots> = - cos ?u"
    unfolding cos_add [of ?u] sin_npi cos_npi by simp
  finally have e: "cos (173/5) = - cos ?u" .
  have au: "\<bar>?u\<bar> \<le> pi / 3"
    using u by (intro abs_leI) linarith+
  have "cos (pi / 3) \<le> cos \<bar>?u\<bar>"
    using au pi_ge_two by (intro cos_monotone_0_pi_le) simp_all
  then have "1 / 2 \<le> cos ?u"
    by (simp add: cos_60)
  then show ?thesis
    using e by simp
qed

section \<open>One candle at one frame\<close>

text \<open>
  The candlesticks start from the state after 12001 calls; candle 55 is drawn from the state
  220 calls later.
\<close>

lemma candle_seed_value: "candle_seed = 36803352"
proof -
  have l: "[0 ..< 55] = [0 ..< length (fst node_pool)]"
    by (simp only: node_pool_length)
  have "candle_seed = outer_st (drop 0 node_states) 661819212"
    unfolding candle_seed_def l node_pool_state
    by (rule edges_outer_state [OF node_pool_coords]) simp
  then show ?thesis
    by (simp add: edge_loop_state)
qed

lemma push_each_nth:
  assumes "\<And>i s. snd (mk i s) = (adv ^^ c) s" and "k < length idxs"
  shows "fst (push_each mk idxs s) ! k = fst (mk (idxs ! k) ((adv ^^ (c * k)) s))"
  using assms(2)
proof (induction idxs arbitrary: k s)
  case Nil
  then show ?case by simp
next
  case (Cons i idxs)
  show ?case
  proof (cases k)
    case 0
    then show ?thesis by (simp add: split_beta Let_def)
  next
    case (Suc j)
    then have j: "j < length idxs" using Cons.prems by simp
    have "fst (push_each mk (i # idxs) s) ! k = fst (push_each mk idxs (snd (mk i s))) ! j"
      using Suc by (simp add: split_beta Let_def)
    also have "\<dots> = fst (mk (idxs ! j) ((adv ^^ (c * j)) ((adv ^^ c) s)))"
      by (simp add: Cons.IH [OF j] assms(1))
    also have "\<dots> = fst (mk ((i # idxs) ! k) ((adv ^^ (c * k)) s))"
      using Suc by (simp add: funpow_app_add add.commute)
    finally show ?thesis .
  qed
qed

lemma pw_220: "pw 220 = 41000625"
proof -
  have p1: "pw 1 = 16807" by (simp add: pw_def)
  have p2: "pw 2 = 282475249" using pw_sq [OF p1] by simp
  have p3: "pw 3 = 1622650073" using pw_mul [OF p2] by simp
  have p6: "pw 6 = 470211272" using pw_sq [OF p3] by simp
  have p12: "pw 12 = 1115438165" using pw_sq [OF p6] by simp
  have p13: "pw 13 = 1784484492" using pw_mul [OF p12] by simp
  have p26: "pw 26 = 1131570933" using pw_sq [OF p13] by simp
  have p27: "pw 27 = 197493099" using pw_mul [OF p26] by simp
  have p54: "pw 54 = 590357944" using pw_sq [OF p27] by simp
  have p55: "pw 55 = 771515668" using pw_mul [OF p54] by simp
  have p110: "pw 110 = 1070477904" using pw_sq [OF p55] by simp
  have p220: "pw 220 = 41000625" using pw_sq [OF p110] by simp
  show ?thesis by (rule p220)
qed

lemma candle_55_draws:
  "rng_call 984759392 = (194633914 / 2147483646, 194633915)"
  "rng_call 194633915 = (594615023 / 2147483646, 594615024)"
  "rng_call 594615024 = (1453298876 / 2147483646, 1453298877)"
  "rng_call 1453298877 = (115224760 / 2147483646, 115224761)"
  by (simp_all add: rng_call_def js_rem_def Let_def)

lemma candle_55:
  "candles build_pools ! 55 =
     \<lparr>c_open = 3610493297 / 10737418230, c_close = 882091103 / 2147483646,
      c_high = 8319625109 / 17895697050, c_low = 3564403393 / 10737418230, c_bull = True\<rparr>"
proof -
  have "candles build_pools ! 55 = fst (mk_candle ([0 ..< 80] ! 55) ((adv ^^ (4 * 55)) 36803352))"
    unfolding candles_build_pools candle_seed_value
    by (rule push_each_nth [where mk = mk_candle, OF mk_adv(6)]) simp
  also have "(adv ^^ (4 * 55)) 36803352 = 984759392"
    by (simp add: adv_funpow pw_220)
  also have "fst (mk_candle ([0 ..< 80] ! 55) 984759392) =
     \<lparr>c_open = 3610493297 / 10737418230, c_close = 882091103 / 2147483646,
      c_high = 8319625109 / 17895697050, c_low = 3564403393 / 10737418230, c_bull = True\<rparr>"
    unfolding mk_candle_def candle_55_draws Let_def prod.case
    by simp
  finally show ?thesis .
qed

lemma candles_length: "length (candles build_pools) = 80"
  by (simp add: candles_build_pools push_each_length)

lemma smoothstep_mid:
  "smoothstep 0 0.05 (5 / 9) = 1" "smoothstep 0.92 1 (5 / 9) = 0" "smoothstep 0.03 0.2 (5 / 9) = 1"
  by (simp_all add: smoothstep_def clamp_def Let_def)

lemma cosmos_candles_mid:
  assumes "length cs = 80"
  shows "cosmos_candles cs (5 / 9) 28000 ! 55 = jitter 28000 1 0 55 (cs ! 55)"
proof -
  have two: "[0 ..< 2] = [0, 1]"
    by (simp add: upt_conv_Cons)
  show ?thesis
    unfolding cosmos_candles_def smoothstep_mid Let_def two
    using assms by (simp add: nth_append)
qed

lemma jitter_frame:
  "jitter 28000 1 0 55 c =
     \<lparr>d_open = clampPrice (c_open c + sin (961 / 10) * 0.08 + cos (173 / 5) * 0.02),
      d_close = clampPrice (c_close c + sin (961 / 10) * 0.08 * 0.9 - cos (173 / 5) * 0.02 * 0.5),
      d_high = clampPrice (c_high c + sin (961 / 10) * 0.08 * 1.15 + cos (173 / 5) * 0.02),
      d_low = clampPrice (c_low c + sin (961 / 10) * 0.08 * 1.15 - cos (173 / 5) * 0.02)\<rparr>"
proof -
  have a: "(28000::real) * 0.003 + real 55 * 0.22 + real 0 * 0.5 = 961 / 10"
    and b: "(28000::real) * 0.001 + real 55 * 0.12 = 173 / 5"
    by simp_all
  show ?thesis
    unfolding jitter_def a b Let_def by simp
qed

text \<open>
  Claim C4, as stated for the jittered values, fails. At the frame 28000 ms into the
  sequence the cosmos renderer is invoked with local progress \<open>5 / 9\<close>; for candle 55 on
  side 0 the jittered low is about 0.440 and the jittered open about 0.393, so the low lies
  above \<open>min (open, close)\<close>. The clamp into \<open>[0.1, 0.9]\<close> changes neither value.
\<close>

theorem jitter_breaks_invariant_counterexample:
  "\<not> d_low (cosmos_candles (candles build_pools) (5 / 9) 28000 ! 55)
       \<le> min (d_open (cosmos_candles (candles build_pools) (5 / 9) 28000 ! 55))
             (d_close (cosmos_candles (candles build_pools) (5 / 9) 28000 ! 55))"
proof -
  define sv where "sv = sin (961 / 10 :: real)"
  define cv where "cv = cos (173 / 5 :: real)"
  have sv: "0 \<le> sv" "sv \<le> 1"
    unfolding sv_def using sin_frame by simp_all
  have cv: "- 1 \<le> cv" "cv \<le> - 1 / 2"
    unfolding cv_def using cos_frame by simp_all
  have lo: "3564403393 / 10737418230 + sv * 0.08 * 1.15 - cv * 0.02 \<ge> 0.34"
    using sv cv by simp
  have hi: "3564403393 / 10737418230 + sv * 0.08 * 1.15 - cv * 0.02 \<le> 0.9"
    using sv cv by simp
  have op: "3610493297 / 10737418230 + sv * 0.08 + cv * 0.02
       < 3564403393 / 10737418230 + sv * 0.08 * 1.15 - cv * 0.02"
    using sv cv by simp
  have "clampPrice (3610493297 / 10737418230 + sv * 0.08 + cv * 0.02)
      < clampPrice (3564403393 / 10737418230 + sv * 0.08 * 1.15 - cv * 0.02)"
    using lo hi op unfolding clampPrice_def by (simp add: min_def max_def)
  then show ?thesis
    unfolding cosmos_candles_mid [OF candles_length] jitter_frame candle_55
    by (simp add: sv_def cv_def)
qed

section \<open>The cosmos renderer at one frame\<close>

text \<open>
  At \<open>elapsed = 29000\<close> (local progress 2/3) \<open>drawCosmos\<close> draws the nodes of the network.
  Node 8 of the pool built by \<open>initParticles\<close> has \<open>pSpeed\<close> about 0.4755 and \<open>pPhase\<close> about
  \<open>0.2717 pi\<close>; the argument of the sine in its \<open>pulse\<close> lies within \<open>pi / 4\<close> of
  \<open>27 pi / 2\<close>, so the sine is below \<open>- 2 / 3\<close>, the pulse is negative, and \<open>ctx.arc\<close> is
  handed the negative radius \<open>nd.size * pulse\<close>. The bounds \<open>3.13 < pi < 3.15\<close> come from
  the Maclaurin expansion of the cosine at 1.565 and 1.575.
\<close>

lemma cos_1565_pos: "0 < cos (1565 / 1000 :: real)"
proof -
  let ?x = "1565 / 1000 :: real"
  have "1 - ?x^2 / 2 + ?x^4 / 24 - ?x^6 / 720 - ?x^8 / 40320 \<le> cos ?x"
    using cos_taylor8 [of ?x] by (simp only: abs_le_iff) linarith
  moreover have "0 < 1 - ?x^2 / 2 + ?x^4 / 24 - ?x^6 / 720 - ?x^8 / 40320"
    by (simp add: power_divide)
  ultimately show ?thesis by linarith
qed

lemma cos_1575_neg: "cos (1575 / 1000 :: real) < 0"
proof -
  let ?x = "1575 / 1000 :: real"
  have "cos ?x \<le> 1 - ?x^2 / 2 + ?x^4 / 24 - ?x^6 / 720 + ?x^8 / 40320"
    using cos_taylor8 [of ?x] by (simp only: abs_le_iff) linarith
  moreover have "1 - ?x^2 / 2 + ?x^4 / 24 - ?x^6 / 720 + ?x^8 / 40320 < 0"
    by (simp add: power_divide)
  ultimately show ?thesis by linarith
qed

lemma pi_bounds_fine: "313 / 100 < pi" "pi < 315 / 100"
proof -
  have a: "0 \<le> (1565/1000::real)" "(1565/1000::real) \<le> pi" "0 \<le> pi / 2" "pi / 2 \<le> pi"
    using pi_ge_two by simp_all
  have "cos (pi / 2) < cos (1565/1000)"
    using cos_1565_pos by simp
  then have "1565/1000 < pi / 2"
    using cos_mono_less_eq [OF a(3,4) a(1,2)] by simp
  then show "313 / 100 < pi" by simp
  have b: "0 \<le> (1575/1000::real)" "(1575/1000::real) \<le> pi"
    using pi_ge_two by simp_all
  have "cos (1575/1000) < cos (pi / 2)"
    using cos_1575_neg by simp
  then have "pi / 2 < 1575/1000"
    using cos_mono_less_eq [OF b a(3,4)] by simp
  then show "pi < 315 / 100" by simp
qed

lemma sin_low:
  fixes u :: real
  assumes "\<bar>u\<bar> \<le> pi / 4"
  shows "sin (u + 3 / 2 * pi + 2 * real n * pi) < - 2 / 3"
proof -
  have "sin (u + 3 / 2 * pi + 2 * real n * pi) = sin (u + 3 / 2 * pi)"
    unfolding sin_add [of "u + 3 / 2 * pi"] sin_2npi cos_2npi by simp
  also have "\<dots> = - cos u"
    unfolding sin_add [of u] sin_3over2_pi cos_3over2_pi by simp
  finally have e: "sin (u + 3 / 2 * pi + 2 * real n * pi) = - cos u" .
  have "cos (pi / 4) \<le> cos \<bar>u\<bar>"
    using assms pi_ge_two by (intro cos_monotone_0_pi_le) simp_all
  then have c: "sqrt 2 / 2 \<le> cos u"
    by (simp add: cos_45)
  have "(4 / 3 :: real) < sqrt 2"
    by (rule real_less_rsqrt) (simp add: power2_eq_square)
  then show ?thesis
    using c e by simp
qed

lemma pw_40: "pw 40 = 784558821"
proof -
  have p1: "pw 1 = 16807" by (simp add: pw_def)
  have p2: "pw 2 = 282475249" using pw_sq [OF p1] by simp
  have p4: "pw 4 = 984943658" using pw_sq [OF p2] by simp
  have p5: "pw 5 = 1144108930" using pw_mul [OF p4] by simp
  have p10: "pw 10 = 2007237709" using pw_sq [OF p5] by simp
  have p20: "pw 20 = 143542612" using pw_sq [OF p10] by simp
  have p40: "pw 40 = 784558821" using pw_sq [OF p20] by simp
  show ?thesis by (rule p40)
qed

lemma nodes_build_pools: "neural_nodes build_pools = fst node_pool"
  by (simp add: build_pools_def node_pool_def star_end_def split_beta Let_def)

lemma node_8_draws:
  "rng_call 1635850512 = (1653906289 / 2147483646, 1653906290)"
  "rng_call 1653906290 = (174689261 / 2147483646, 174689262)"
  "rng_call 174689262 = (392280984 / 2147483646, 392280985)"
  "rng_call 392280985 = (291718604 / 2147483646, 291718605)"
  "rng_call 291718605 = (209428133 / 2147483646, 209428134)"
  by (simp_all add: rng_call_def js_rem_def Let_def)

lemma node_8:
  "nd_size (neural_nodes build_pools ! 8) = 2 + 392280984 / 2147483646 * 7"
  "nd_pPhase (neural_nodes build_pools ! 8) = 291718604 / 2147483646 * pi * 2"
  "nd_pSpeed (neural_nodes build_pools ! 8) = 3 / 10 + 209428133 / 2147483646 * (18 / 10)"
proof -
  have "neural_nodes build_pools ! 8 = fst (mk_node ([0 ..< 55] ! 8) ((adv ^^ (5 * 8)) 978757940))"
    unfolding nodes_build_pools node_pool_def star_end_value
    by (rule push_each_nth [where mk = mk_node, OF mk_adv(5)]) simp
  also have "(adv ^^ (5 * 8)) 978757940 = 1635850512"
    by (simp add: adv_funpow pw_40)
  finally have n: "neural_nodes build_pools ! 8 = fst (mk_node ([0 ..< 55] ! 8) 1635850512)" .
  show "nd_size (neural_nodes build_pools ! 8) = 2 + 392280984 / 2147483646 * 7"
    unfolding n mk_node_def node_8_draws Let_def prod.case by simp
  show "nd_pPhase (neural_nodes build_pools ! 8) = 291718604 / 2147483646 * pi * 2"
    unfolding n mk_node_def node_8_draws Let_def prod.case by simp
  show "nd_pSpeed (neural_nodes build_pools ! 8) = 3 / 10 + 209428133 / 2147483646 * (18 / 10)"
    unfolding n mk_node_def node_8_draws Let_def prod.case by simp
qed

lemma node_8_pulse:
  "0.4 + 0.6 * sin (29000 * 0.003 * nd_pSpeed (neural_nodes build_pools ! 8)
                     + nd_pPhase (neural_nodes build_pools ! 8)) < 0"
proof -
  define u :: real
    where "u = 87 * (3 / 10 + 209428133 / 2147483646 * (18 / 10))
                 + 291718604 / 2147483646 * pi * 2 - 3 / 2 * pi - 2 * real 6 * pi"
  have "- (pi / 4) \<le> u" "u \<le> pi / 4"
    unfolding u_def using pi_bounds_fine by simp_all
  then have "\<bar>u\<bar> \<le> pi / 4"
    by (intro abs_leI) linarith+
  then have "sin (u + 3 / 2 * pi + 2 * real 6 * pi) < - 2 / 3"
    by (rule sin_low)
  moreover have "u + 3 / 2 * pi + 2 * real 6 * pi =
      29000 * 0.003 * nd_pSpeed (neural_nodes build_pools ! 8)
        + nd_pPhase (neural_nodes build_pools ! 8)"
    unfolding u_def node_8 by simp
  ultimately have "sin (29000 * 0.003 * nd_pSpeed (neural_nodes build_pools ! 8)
                     + nd_pPhase (neural_nodes build_pools ! 8)) < - 2 / 3"
    by simp
  then show ?thesis
    by simp
qed

lemma node_8_radius:
  "nd_size (neural_nodes build_pools ! 8)
     * (0.4 + 0.6 * sin (29000 * 0.003 * nd_pSpeed (neural_nodes build_pools ! 8)
                          + nd_pPhase (neural_nodes build_pools ! 8))) < 0"
proof -
  have "0 < nd_size (neural_nodes build_pools ! 8)"
    unfolding node_8 by simp
  then show ?thesis
    using node_8_pulse by (rule mult_pos_neg)
qed

lemma cosmos_node_call:
  assumes "0 < fade drawCosmos t" and "0 < smoothstep 0.08 0.35 t"
    and "nd \<in> set (neural_nodes p)"
  shows "\<exists>calls. drawCosmos_calls w h p t elapsed = Some calls
           \<and> Arc (nd_size nd * (0.4 + 0.6 * sin (elapsed * 0.003 * nd_pSpeed nd + nd_pPhase nd)))
               \<in> set calls"
proof -
  have "Arc (nd_size nd * (0.4 + 0.6 * sin (elapsed * 0.003 * nd_pSpeed nd + nd_pPhase nd)))
          \<in> set (cosmos_neural_calls (real (min w h)) (neural_nodes p) t elapsed)"
    using assms(2,3) by (auto simp add: cosmos_neural_calls_def Let_def)
  then show ?thesis
    using assms(1) by (simp add: drawCosmos_calls_def Let_def del: fade.simps)
qed

lemma cosmos_gates: "fade drawCosmos (2 / 3) = 1" "smoothstep 0.08 0.35 (2 / 3) = 1"
  by (simp_all add: smoothstep_def clamp_def)

text \<open>
  So \<open>drawCosmos\<close> raises at that frame, on every viewport, and the frame requests no
  successor: with the pools of \<open>initParticles\<close> the frame 29000 ms into a sequence ends in
  the exception.
\<close>

lemma drawCosmos_raises:
  "run_renderer drawCosmos w h (Some build_pools) (2 / 3) 29000 = Some IndexSizeError"
proof -
  let ?nd = "neural_nodes build_pools ! 8"
  have m: "?nd \<in> set (neural_nodes build_pools)"
    by (rule nth_mem) (simp add: nodes_build_pools node_pool_length)
  have g: "0 < fade drawCosmos (2 / 3)" "0 < smoothstep 0.08 0.35 (2 / 3)"
    unfolding cosmos_gates by simp_all
  obtain calls where c: "drawCosmos_calls w h build_pools (2 / 3) 29000 = Some calls"
    and a: "Arc (nd_size ?nd * (0.4 + 0.6 * sin (29000 * 0.003 * nd_pSpeed ?nd + nd_pPhase ?nd)))
              \<in> set calls"
    using cosmos_node_call [OF g m, of w h 29000] by blast
  have "rejected (Arc (nd_size ?nd
          * (0.4 + 0.6 * sin (29000 * 0.003 * nd_pSpeed ?nd + nd_pPhase ?nd))))"
    using node_8_radius by simp
  then have "list_ex rejected calls"
    using a unfolding list_ex_iff by blast
  then show ?thesis
    by (simp add: c raised_def)
qed

lemma cosmos_frame_raises:
  assumes "\<not> skipped st" and "canvas st \<noteq> None" and "particles st = Some build_pools"
    and "startTime st = Some t0" and "t0 \<noteq> 0"
  shows "trace (render (t0 + 29000) st) =
           trace st @ [ClearRect (view_w st) (view_h st), FillRect ''#0a0a0a'' (view_w st) (view_h st),
             Invoke drawCosmos (2 / 3) 29000 (getZoom 29000), IndexSizeError]"
    and "pending (render (t0 + 29000) st) = pending st"
proof -
  have cs: "clock_start (startTime st) (t0 + 29000) = t0"
    using assms(4,5) by (simp add: clock_start_def)
  have lt: "t0 + 29000 - clock_start (startTime st) (t0 + 29000) < DURATION"
    by (simp add: cs DURATION_def)
  have "run_phases phases (view_w st) (view_h st) (particles st) 29000 (getZoom 29000) =
          ([Invoke drawCosmos (2 / 3) 29000 (getZoom 29000)], Some IndexSizeError)"
    using drawCosmos_raises [of "view_w st" "view_h st"]
    by (simp add: phases_def assms(3) del: run_renderer.simps)
  then have "run_phases phases (view_w st) (view_h st) (particles st)
               (t0 + 29000 - clock_start (startTime st) (t0 + 29000))
               (getZoom (t0 + 29000 - clock_start (startTime st) (t0 + 29000))) =
          ([Invoke drawCosmos (2 / 3) 29000 (getZoom 29000)], Some IndexSizeError)"
    by (simp add: cs)
  note r = render_raising [OF assms(1,2) lt this]
  show "trace (render (t0 + 29000) st) =
           trace st @ [ClearRect (view_w st) (view_h st), FillRect ''#0a0a0a'' (view_w st) (view_h st),
             Invoke drawCosmos (2 / 3) 29000 (getZoom 29000), IndexSizeError]"
    unfolding r by simp
  show "pending (render (t0 + 29000) st) = pending st"
    unfolding r by simp
qed

end
